(* ===== verification/Prelude.thy ===== *)
theory Prelude
  imports Main "HOL-Library.Code_Target_Nat" "HOL-Library.Sublist" "HOL-Library.Multiset"
begin

text \<open>
  Shared vocabulary of the development: the Python exceptions the program can raise, the
  state-and-exception programs the service operations are written in, and the Python
  string operations the code calls (\<open>str.lower\<close>, \<open>str.strip\<close>, \<open>in\<close>, \<open>str.split\<close>,
  \<open>str.startswith\<close>).  A Python \<open>str\<close> is a sequence of code points; the model reads a
  HOL \<open>char\<close> as the code point \<open>of_char c\<close>, so strings of code points below 256
  (Latin-1) are represented exactly, and the string functions are the Python functions on
  that range.
\<close>

named_theorems py_simps "evaluation rules of the Python primitives"
named_theorems preserves_intro "a program keeps an invariant of its state"

section \<open>Exceptions and results\<close>

text \<open>The exceptions the modelled code raises or lets propagate.\<close>

datatype py_error =
    KeyError string
  | TypeError
  | AttributeError
  | JSONDecodeError
  | FileNotFoundError
  | FileExistsError
  | NotADirectoryError
  | IsADirectoryError
  | ConnectionError

type_synonym 'a pyres = "py_error + 'a"

text \<open>
  A statement of the program that reads and writes a state \<open>'s\<close> and either returns a
  value or raises: the state is returned in both cases, so that the effects a statement had
  before it raised are kept, as in Python.
\<close>

type_synonym ('s, 'a) prog = "'s \<Rightarrow> 'a pyres \<times> 's"

definition ret :: "'a \<Rightarrow> ('s, 'a) prog" where
  "ret x = (\<lambda>s. (Inr x, s))"

definition raise :: "py_error \<Rightarrow> ('s, 'a) prog" where
  "raise e = (\<lambda>s. (Inl e, s))"

definition bindE :: "('s, 'a) prog \<Rightarrow> ('a \<Rightarrow> ('s, 'b) prog) \<Rightarrow> ('s, 'b) prog" where
  "bindE m f s = (case m s of (Inl e, s') \<Rightarrow> (Inl e, s') | (Inr x, s') \<Rightarrow> f x s')"

definition lift :: "'a pyres \<Rightarrow> ('s, 'a) prog" where
  "lift r = (\<lambda>s. (r, s))"

text \<open>A program keeps an invariant \<open>I\<close> of the state when every run from a state with
  \<open>I\<close> ends, returning or raising, in a state with \<open>I\<close>.  A program that keeps
  \<open>\<lambda>s. s = s0\<close> for every \<open>s0\<close> does not change the state at all.\<close>

definition preserves :: "('s \<Rightarrow> bool) \<Rightarrow> ('s, 'a) prog \<Rightarrow> bool" where
  "preserves I m \<longleftrightarrow> (\<forall>s r s'. m s = (r, s') \<longrightarrow> I s \<longrightarrow> I s')"

lemma bindE_ret [simp, py_simps]: "bindE (ret x) f = f x"
  by (rule ext) (simp add: bindE_def ret_def)

lemma bindE_raise [simp, py_simps]: "bindE (raise e) f = raise e"
  by (rule ext) (simp add: bindE_def raise_def)

lemma bindE_apply [py_simps]:
  "bindE m f s = (case m s of (Inl e, s') \<Rightarrow> (Inl e, s') | (Inr x, s') \<Rightarrow> f x s')"
  by (simp add: bindE_def)

lemma lift_simps [simp, py_simps]: "lift (Inr x) = ret x" "lift (Inl e) = raise e"
  by (simp_all add: lift_def ret_def raise_def)

lemma ret_raise_apply [py_simps]: "ret x s = (Inr x, s)" "raise e s = (Inl e, s)"
  by (simp_all add: ret_def raise_def)

lemma bindE_Inl [py_simps]: "m s = (Inl e, s') \<Longrightarrow> bindE m f s = (Inl e, s')"
  by (simp add: bindE_def)

lemma bindE_Inr [py_simps]: "m s = (Inr x, s') \<Longrightarrow> bindE m f s = f x s'"
  by (simp add: bindE_def)

lemma bindE_assoc: "bindE (bindE m f) g = bindE m (\<lambda>x. bindE (f x) g)"
  by (rule ext) (simp add: bindE_def split: prod.splits sum.splits)

lemma preservesD: "preserves I m \<Longrightarrow> m s = (r, s') \<Longrightarrow> I s \<Longrightarrow> I s'"
  by (auto simp: preserves_def)

lemma preserves_ret [preserves_intro]: "preserves I (ret x)"
  by (simp add: preserves_def ret_def)

lemma preserves_raise [preserves_intro]: "preserves I (raise e)"
  by (simp add: preserves_def raise_def)

lemma preserves_lift [preserves_intro]: "preserves I (lift r)"
  by (simp add: preserves_def lift_def)

lemma preserves_bindE [preserves_intro]:
  "preserves I m \<Longrightarrow> (\<And>x. preserves I (f x)) \<Longrightarrow> preserves I (bindE m f)"
  by (auto simp: preserves_def bindE_def split: prod.splits sum.splits)

lemma preserves_if [preserves_intro]:
  "preserves I a \<Longrightarrow> preserves I b \<Longrightarrow> preserves I (if c then a else b)"
  by simp

lemma preserves_case_sum [preserves_intro]:
  "(\<And>e. preserves I (f e)) \<Longrightarrow> (\<And>x. preserves I (g x)) \<Longrightarrow> preserves I (case r of Inl e \<Rightarrow> f e | Inr x \<Rightarrow> g x)"
  by (cases r) simp_all

lemma preserves_Let [preserves_intro]: "(\<And>x. preserves I (f x)) \<Longrightarrow> preserves I (Let v f)"
  by simp

text \<open>A program that first reads the state and then runs what it read.\<close>

lemma preserves_read_state:
  "(\<And>s0. preserves I (f s0)) \<Longrightarrow> preserves I (\<lambda>s. f s s)"
  by (simp add: preserves_def)

lemma preserves_unchanged: "(\<And>s. snd (m s) = s) \<Longrightarrow> preserves I m"
  by (metis preserves_def snd_conv)

text \<open>
  A Python list comprehension \<open>[x for x in xs if p(x)]\<close> whose condition may raise:
  the conditions are evaluated left to right and the first exception propagates.
\<close>

fun py_filter :: "('a \<Rightarrow> bool pyres) \<Rightarrow> 'a list \<Rightarrow> 'a list pyres" where
  "py_filter p [] = Inr []"
| "py_filter p (x # xs) =
     (case p x of
        Inl e \<Rightarrow> Inl e
      | Inr b \<Rightarrow> (case py_filter p xs of
                    Inl e \<Rightarrow> Inl e
                  | Inr ys \<Rightarrow> Inr (if b then x # ys else ys)))"

lemma py_filter_total [simp]: "py_filter (\<lambda>x. Inr (q x)) xs = Inr (filter q xs)"
  by (induction xs) auto

lemma py_filter_Inr_eq:
  "(\<And>x. x \<in> set xs \<Longrightarrow> p x = Inr (q x)) \<Longrightarrow> py_filter p xs = Inr (filter q xs)"
  by (induction xs) auto

lemma py_filter_Inr_sub:
  "py_filter p xs = Inr ys \<Longrightarrow> ys = filter (\<lambda>x. p x = Inr True) xs"
proof (induction xs arbitrary: ys)
  case (Cons x xs)
  then show ?case by (auto split: sum.splits)
qed simp

lemma py_filter_Inr_iff:
  "(\<exists>ys. py_filter p xs = Inr ys) \<longleftrightarrow> (\<forall>x\<in>set xs. \<exists>b. p x = Inr b)"
proof (induction xs)
  case (Cons x xs)
  then show ?case by (auto split: sum.splits)
qed simp

section \<open>Python strings\<close>

text \<open>
  \<open>str.lower\<close> on Latin-1: \<open>A\<close>--\<open>Z\<close> and the upper-case letters
  \<open>U+00C0\<close>--\<open>U+00DE\<close> except the multiplication sign \<open>U+00D7\<close> move up by 32;
  every other code point below 256 is its own lower case.
\<close>

definition py_is_upper :: "char \<Rightarrow> bool" where
  "py_is_upper c \<longleftrightarrow>
     (let n = of_char c :: nat in (65 \<le> n \<and> n \<le> 90) \<or> (192 \<le> n \<and> n \<le> 222 \<and> n \<noteq> 215))"

definition py_lower_char :: "char \<Rightarrow> char" where
  "py_lower_char c = (if py_is_upper c then char_of (of_char c + (32::nat)) else c)"

definition py_lower :: "string \<Rightarrow> string" where
  "py_lower s = map py_lower_char s"

text \<open>
  \<open>str.isspace\<close> on Latin-1: tab, line feed, vertical tab, form feed, carriage
  return, the separators \<open>U+001C\<close>--\<open>U+001F\<close>, space, \<open>U+0085\<close> and \<open>U+00A0\<close>.
  \<open>str.strip()\<close> removes them at both ends; \<open>str.strip(cs)\<close> removes the characters of
  \<open>cs\<close> instead.
\<close>

definition py_isspace :: "char \<Rightarrow> bool" where
  "py_isspace c \<longleftrightarrow> of_char c \<in> ({9, 10, 11, 12, 13, 28, 29, 30, 31, 32, 133, 160} :: nat set)"

definition py_strip_by :: "(char \<Rightarrow> bool) \<Rightarrow> string \<Rightarrow> string" where
  "py_strip_by p s = rev (dropWhile p (rev (dropWhile p s)))"

definition py_strip :: "string \<Rightarrow> string" where
  "py_strip s = py_strip_by py_isspace s"

definition py_strip_chars :: "string \<Rightarrow> string \<Rightarrow> string" where
  "py_strip_chars cs s = py_strip_by (\<lambda>c. c \<in> set cs) s"

text \<open>\<open>needle in hay\<close> for two strings: \<open>needle\<close> occurs as a contiguous substring.\<close>

definition py_str_in :: "string \<Rightarrow> string \<Rightarrow> bool" where
  "py_str_in needle hay \<longleftrightarrow> sublist needle hay"

definition py_startswith :: "string \<Rightarrow> string \<Rightarrow> bool" where
  "py_startswith s p \<longleftrightarrow> prefix p s"

text \<open>\<open>s.split(c)\<close> for a one-character separator (the code splits on \<open>:\<close>,
  \<open>~\<close> and, in paths, \<open>/\<close>).\<close>

fun py_split :: "char \<Rightarrow> string \<Rightarrow> string list" where
  "py_split c [] = [[]]"
| "py_split c (x # xs) =
     (let r = py_split c xs in if x = c then [] # r else (x # hd r) # tl r)"

text \<open>\<open>sep.join(xs)\<close>.\<close>

fun py_join :: "string \<Rightarrow> string list \<Rightarrow> string" where
  "py_join sep [] = []"
| "py_join sep [x] = x"
| "py_join sep (x # y # ys) = x @ sep @ py_join sep (y # ys)"

text \<open>\<open>s.replace(old, new)\<close> for a non-empty \<open>old\<close>: the occurrences are replaced from
  left to right without overlap.\<close>

function py_replace :: "string \<Rightarrow> string \<Rightarrow> string \<Rightarrow> string" where
  "py_replace old new [] = []"
| "py_replace old new (c # cs) =
     (if old \<noteq> [] \<and> prefix old (c # cs)
      then new @ py_replace old new (drop (length old) (c # cs))
      else c # py_replace old new cs)"
  by pat_completeness auto
termination
  by (relation "measure (\<lambda>(old, new, s). length s)") auto

section \<open>Generic facts\<close>

lemma py_split_not_Nil [simp]: "py_split c s \<noteq> []"
  by (induction s) (auto simp: Let_def)

lemma py_split_pieces: "xs \<in> set (py_split c s) \<Longrightarrow> c \<notin> set xs"
proof (induction s arbitrary: xs)
  case (Cons x s)
  let ?r = "py_split c s"
  have "hd ?r \<in> set ?r" and "set (tl ?r) \<subseteq> set ?r"
    by (simp_all add: list.set_sel(2) [of ?r] subsetI)
  with Cons show ?case
    by (auto simp: Let_def split: if_splits)
qed simp

lemma py_join_cons_hd:
  assumes "r \<noteq> []"
  shows "py_join sep ((x # hd r) # tl r) = x # py_join sep r"
proof -
  obtain y ys where "r = y # ys" using assms by (cases r) auto
  then show ?thesis by (cases ys) simp_all
qed

lemma py_join_Nil_Cons:
  assumes "r \<noteq> []"
  shows "py_join sep ([] # r) = sep @ py_join sep r"
proof -
  obtain y ys where "r = y # ys" using assms by (cases r) auto
  then show ?thesis by simp
qed

lemma py_join_split: "py_join [c] (py_split c s) = s"
proof (induction s)
  case (Cons x s)
  have r: "py_split c s \<noteq> []" by simp
  show ?case
  proof (cases "x = c")
    case True
    then show ?thesis
      using Cons.IH py_join_Nil_Cons [OF r] by (simp add: Let_def)
  next
    case False
    then show ?thesis
      using Cons.IH py_join_cons_hd [OF r] by (simp add: Let_def)
  qed
qed simp

lemma length_py_split: "length (py_split c s) = Suc (count_list s c)"
  by (induction s) (auto simp: Let_def)

lemma py_lower_char_upper:
  assumes "py_is_upper c"
  shows "of_char (py_lower_char c) = of_char c + (32::nat)"
proof -
  have "of_char c + 32 < (256::nat)"
    using assms unfolding py_is_upper_def Let_def by linarith
  then show ?thesis
    using assms by (simp add: py_lower_char_def)
qed

lemma py_lower_char_not_upper [simp]: "\<not> py_is_upper (py_lower_char c)"
proof (cases "py_is_upper c")
  case True
  then have "of_char (py_lower_char c) = of_char c + (32::nat)"
    by (rule py_lower_char_upper)
  with True show ?thesis
    unfolding py_is_upper_def Let_def by linarith
next
  case False
  then show ?thesis by (simp add: py_lower_char_def)
qed

lemma py_lower_char_idem [simp]: "py_lower_char (py_lower_char c) = py_lower_char c"
  by (simp add: py_lower_char_def [of "py_lower_char c"])

lemma py_lower_idem [simp]: "py_lower (py_lower s) = py_lower s"
  by (simp add: py_lower_def)

lemma length_py_lower [simp]: "length (py_lower s) = length s"
  by (simp add: py_lower_def)

lemma py_lower_append [simp]: "py_lower (xs @ ys) = py_lower xs @ py_lower ys"
  by (simp add: py_lower_def)

lemma py_str_in_lower: "py_str_in n h \<Longrightarrow> py_str_in (py_lower n) (py_lower h)"
  by (auto simp: py_str_in_def py_lower_def intro: map_mono_sublist)

lemma py_str_in_Nil [simp]: "py_str_in [] h"
  by (simp add: py_str_in_def)

lemma last_dropWhile_eq: "dropWhile p xs \<noteq> [] \<Longrightarrow> last (dropWhile p xs) = last xs"
  by (metis dropWhile_last hd_dropWhile hd_in_set set_dropWhileD)

lemma py_strip_by_ends:
  assumes "py_strip_by p s \<noteq> []"
  shows "\<not> p (hd (py_strip_by p s)) \<and> \<not> p (last (py_strip_by p s))"
proof -
  define t where "t = dropWhile p s"
  define u where "u = dropWhile p (rev t)"
  have u: "u \<noteq> []" and st: "py_strip_by p s = rev u"
    using assms by (simp_all add: py_strip_by_def t_def u_def)
  then have "t \<noteq> []" by (auto simp: u_def)
  have "hd (rev u) = last (rev t)"
    using u by (simp add: hd_rev u_def last_dropWhile_eq)
  also have "\<dots> = hd t" using \<open>t \<noteq> []\<close> by (simp add: last_rev)
  finally have "\<not> p (hd (rev u))"
    using \<open>t \<noteq> []\<close> by (simp add: t_def hd_dropWhile)
  moreover have "\<not> p (last (rev u))"
    using u by (simp add: last_rev u_def hd_dropWhile)
  ultimately show ?thesis by (simp add: st)
qed

end
