(* ===== verification/Json.thy ===== *)
theory Json
  imports Prelude "HOL-Library.AList"
begin

text \<open>
  The JSON values the program reads and writes, the Python operations it applies to them
  (iteration, subscription with a string key, \<open>dict.get\<close>, \<open>str.lower\<close>, truth value),
  and the codec of Python's \<open>json\<close> module: \<open>json.dump\<close> with its default settings
  (separators \<open>', '\<close> and \<open>': '\<close>, \<open>ensure_ascii=True\<close>) and \<open>json.load\<close> as
  CPython's scanner accepts input.  Numbers are Python integers; a JSON number with a
  fraction or an exponent, and the literals \<open>NaN\<close> and \<open>Infinity\<close>, are outside the
  model (the model's parser rejects them), as are \<open>\u\<close> escapes above \<open>U+00FF\<close>.
  The parser recurses on a bound; the last sections prove that the bound
  \<open>2 * length s + 1\<close> is never exhausted and that the result does not depend on it.
\<close>

section \<open>Values\<close>

text \<open>A Python value built by \<open>json.load\<close>: a dict is the list of its items in insertion
  order.\<close>

datatype json =
    JNull
  | JBool bool
  | JInt int
  | JStr string
  | JList "json list"
  | JDict "(string \<times> json) list"

text \<open>A Python dict never holds a key twice.\<close>

fun json_wf :: "json \<Rightarrow> bool" where
  "json_wf (JList xs) = list_all json_wf xs"
| "json_wf (JDict kvs) = (distinct (map fst kvs) \<and> list_all (\<lambda>kv. json_wf (snd kv)) kvs)"
| "json_wf _ = True"

section \<open>Python operations on values\<close>

text \<open>\<open>for x in v\<close>: a list yields its items, a dict its keys, a string its characters;
  anything else raises \<open>TypeError\<close>.\<close>

definition py_iter :: "json \<Rightarrow> json list pyres" where
  "py_iter v =
     (case v of
        JList xs \<Rightarrow> Inr xs
      | JDict kvs \<Rightarrow> Inr (map (\<lambda>kv. JStr (fst kv)) kvs)
      | JStr s \<Rightarrow> Inr (map (\<lambda>c. JStr [c]) s)
      | _ \<Rightarrow> Inl TypeError)"

text \<open>\<open>v[k]\<close> with a string key: a dict looks the key up (\<open>KeyError\<close> when absent);
  lists and strings want integer indices and \<open>None\<close>, booleans and integers are not
  subscriptable, so all of these raise \<open>TypeError\<close>.\<close>

definition py_getitem :: "json \<Rightarrow> string \<Rightarrow> json pyres" where
  "py_getitem v k =
     (case v of
        JDict kvs \<Rightarrow> (case map_of kvs k of Some x \<Rightarrow> Inr x | None \<Rightarrow> Inl (KeyError k))
      | _ \<Rightarrow> Inl TypeError)"

text \<open>\<open>v.get(k, d)\<close>: only a dict has the method.\<close>

definition py_dict_get :: "json \<Rightarrow> string \<Rightarrow> json \<Rightarrow> json pyres" where
  "py_dict_get v k d =
     (case v of
        JDict kvs \<Rightarrow> Inr (case map_of kvs k of Some x \<Rightarrow> x | None \<Rightarrow> d)
      | _ \<Rightarrow> Inl AttributeError)"

text \<open>\<open>v.lower()\<close>: only a string has the method.\<close>

definition py_lower_json :: "json \<Rightarrow> string pyres" where
  "py_lower_json v = (case v of JStr s \<Rightarrow> Inr (py_lower s) | _ \<Rightarrow> Inl AttributeError)"

text \<open>\<open>bool(v)\<close>.\<close>

fun py_truthy :: "json \<Rightarrow> bool" where
  "py_truthy JNull = False"
| "py_truthy (JBool b) = b"
| "py_truthy (JInt i) = (i \<noteq> 0)"
| "py_truthy (JStr s) = (s \<noteq> [])"
| "py_truthy (JList xs) = (xs \<noteq> [])"
| "py_truthy (JDict kvs) = (kvs \<noteq> [])"

text \<open>\<open>dict(pairs)\<close>: a later value for a key replaces the earlier one in the earlier
  key's position (\<open>AList.update\<close> does exactly this).\<close>

definition dict_of_pairs :: "('k \<times> 'v) list \<Rightarrow> ('k \<times> 'v) list" where
  "dict_of_pairs kvs = fold (\<lambda>(k, v) d. AList.update k v d) kvs []"

section \<open>Serialisation: json.dump\<close>

definition hex_digit :: "nat \<Rightarrow> char" where
  "hex_digit n = (if n < 10 then char_of (48 + n) else char_of (87 + n))"

text \<open>\<open>py_encode_basestring_ascii\<close>: backslash and double quote, the five short escapes,
  every other code point outside \<open>' '\<close>..\<open>'~'\<close> as \<open>\u00xx\<close> in lower-case hex.\<close>

definition json_escape_char :: "char \<Rightarrow> string" where
  "json_escape_char c =
     (let n = of_char c :: nat in
      if c = CHR 0x5C then [CHR 0x5C, CHR 0x5C]
      else if c = CHR 0x22 then [CHR 0x5C, CHR 0x22]
      else if n = 8 then [CHR 0x5C, CHR ''b'']
      else if n = 12 then [CHR 0x5C, CHR ''f'']
      else if n = 10 then [CHR 0x5C, CHR ''n'']
      else if n = 13 then [CHR 0x5C, CHR ''r'']
      else if n = 9 then [CHR 0x5C, CHR ''t'']
      else if 32 \<le> n \<and> n \<le> 126 then [c]
      else [CHR 0x5C, CHR ''u'', CHR ''0'', CHR ''0'', hex_digit (n div 16), hex_digit (n mod 16)])"

definition json_dumps_str :: "string \<Rightarrow> string" where
  "json_dumps_str s = CHR 0x22 # concat (map json_escape_char s) @ [CHR 0x22]"

text \<open>\<open>int.__repr__\<close>.\<close>

fun nat_digits :: "nat \<Rightarrow> string" where
  "nat_digits n =
     (if n < 10 then [char_of (48 + n)] else nat_digits (n div 10) @ [char_of (48 + n mod 10)])"

definition int_repr :: "int \<Rightarrow> string" where
  "int_repr i = (if i < 0 then CHR ''-'' # nat_digits (nat (- i)) else nat_digits (nat i))"

fun json_dumps :: "json \<Rightarrow> string" where
  "json_dumps JNull = ''null''"
| "json_dumps (JBool b) = (if b then ''true'' else ''false'')"
| "json_dumps (JInt i) = int_repr i"
| "json_dumps (JStr s) = json_dumps_str s"
| "json_dumps (JList xs) = ''['' @ py_join '', '' (map json_dumps xs) @ '']''"
| "json_dumps (JDict kvs) =
     ''{'' @ py_join '', '' (map (\<lambda>(k, v). json_dumps_str k @ '': '' @ json_dumps v) kvs) @ ''}''"

section \<open>Printing: str() and repr()\<close>

text \<open>\<open>str.isprintable\<close> on Latin-1: the control characters, the no-break space and the
  soft hyphen are not printable.\<close>

definition py_printable :: "char \<Rightarrow> bool" where
  "py_printable c \<longleftrightarrow>
     \<not> (of_char c < (32::nat) \<or> ((127::nat) \<le> of_char c \<and> of_char c \<le> (160::nat))
        \<or> of_char c = (173::nat))"

text \<open>One character of \<open>repr(s)\<close> quoted with \<open>q\<close>.\<close>

definition repr_char :: "char \<Rightarrow> char \<Rightarrow> string" where
  "repr_char q c =
     (if c = q \<or> c = CHR 0x5C then [CHR 0x5C, c]
      else if c = CHR 0x09 then [CHR 0x5C, CHR ''t'']
      else if c = CHR 0x0A then [CHR 0x5C, CHR ''n'']
      else if c = CHR 0x0D then [CHR 0x5C, CHR ''r'']
      else if \<not> py_printable c then
        [CHR 0x5C, CHR ''x'', hex_digit (of_char c div 16), hex_digit (of_char c mod 16)]
      else [c])"

text \<open>\<open>repr(s)\<close>: single quotes, unless the string holds a single quote and no double
  quote.\<close>

definition py_repr_str :: "string \<Rightarrow> string" where
  "py_repr_str s =
     (let q = (if CHR 0x27 \<in> set s \<and> CHR 0x22 \<notin> set s then CHR 0x22 else CHR 0x27)
      in q # concat (map (repr_char q) s) @ [q])"

fun py_repr :: "json \<Rightarrow> string" where
  "py_repr JNull = ''None''"
| "py_repr (JBool b) = (if b then ''True'' else ''False'')"
| "py_repr (JInt i) = int_repr i"
| "py_repr (JStr s) = py_repr_str s"
| "py_repr (JList xs) = CHR ''['' # py_join '', '' (map py_repr xs) @ '']''"
| "py_repr (JDict kvs) =
     CHR ''{'' # py_join '', '' (map (\<lambda>kv. py_repr_str (fst kv) @ '': '' @ py_repr (snd kv)) kvs) @ ''}''"

text \<open>\<open>str(v)\<close>, which \<open>'%s' % v\<close> uses: a string is itself, anything else its repr.\<close>

definition py_str :: "json \<Rightarrow> string" where
  "py_str v = (case v of JStr s \<Rightarrow> s | _ \<Rightarrow> py_repr v)"

section \<open>Parsing: json.load\<close>

text \<open>Insignificant white space of JSON: space, tab, line feed, carriage return.\<close>

definition is_json_ws :: "char \<Rightarrow> bool" where
  "is_json_ws c \<longleftrightarrow> c = CHR '' '' \<or> c = CHR 0x09 \<or> c = CHR 0x0A \<or> c = CHR 0x0D"

abbreviation skip_ws :: "string \<Rightarrow> string" where
  "skip_ws \<equiv> dropWhile is_json_ws"

definition is_dec_digit :: "char \<Rightarrow> bool" where
  "is_dec_digit c \<longleftrightarrow> (48::nat) \<le> of_char c \<and> of_char c \<le> (57::nat)"

definition hex_val :: "char \<Rightarrow> nat option" where
  "hex_val c =
     (let n = of_char c :: nat in
      if 48 \<le> n \<and> n \<le> 57 then Some (n - 48)
      else if 97 \<le> n \<and> n \<le> 102 then Some (n - 87)
      else if 65 \<le> n \<and> n \<le> 70 then Some (n - 55)
      else None)"

definition hex4 :: "char \<Rightarrow> char \<Rightarrow> char \<Rightarrow> char \<Rightarrow> nat option" where
  "hex4 a b c d =
     (case (hex_val a, hex_val b, hex_val c, hex_val d) of
        (Some w, Some x, Some y, Some z) \<Rightarrow> Some (((w * 16 + x) * 16 + y) * 16 + z)
      | _ \<Rightarrow> None)"

text \<open>The one-character escapes of \<open>scanstring\<close> (the table \<open>BACKSLASH\<close>).\<close>

definition json_unescape :: "char \<Rightarrow> char option" where
  "json_unescape e =
     (if e = CHR 0x22 then Some (CHR 0x22)
      else if e = CHR 0x5C then Some (CHR 0x5C)
      else if e = CHR ''/'' then Some (CHR ''/'')
      else if e = CHR ''b'' then Some (char_of (8::nat))
      else if e = CHR ''f'' then Some (char_of (12::nat))
      else if e = CHR ''n'' then Some (char_of (10::nat))
      else if e = CHR ''r'' then Some (char_of (13::nat))
      else if e = CHR ''t'' then Some (char_of (9::nat))
      else None)"

text \<open>\<open>scanstring\<close> after the opening quote, strict mode: the characters up to the
  closing quote (accumulated in reverse), with the rest of the input.  A control character
  below \<open>U+0020\<close> inside the string, an unknown escape or the end of the input is an
  error.\<close>

fun scan_str :: "string \<Rightarrow> string \<Rightarrow> (string \<times> string) option" where
  "scan_str acc [] = None"
| "scan_str acc (c # cs) =
     (if c = CHR 0x22 then Some (rev acc, cs)
      else if c = CHR 0x5C then
        (case cs of
           [] \<Rightarrow> None
         | e # cs' \<Rightarrow>
             if e = CHR ''u'' then
               (case cs' of
                  h1 # h2 # h3 # h4 # rest \<Rightarrow>
                    (case hex4 h1 h2 h3 h4 of
                       Some n \<Rightarrow> if n < 256 then scan_str (char_of n # acc) rest else None
                     | None \<Rightarrow> None)
                | _ \<Rightarrow> None)
             else (case json_unescape e of
                     Some ch \<Rightarrow> scan_str (ch # acc) cs'
                   | None \<Rightarrow> None))
      else if of_char c < (32::nat) then None
      else scan_str (c # acc) cs)"

definition digits_val :: "string \<Rightarrow> nat" where
  "digits_val ds = foldl (\<lambda>a d. 10 * a + (of_char d - 48)) 0 ds"

text \<open>The number pattern \<open>-?(0|[1-9]\d*)(\.\d+)?([eE][-+]?\d+)?\<close>: an integer is
  returned with the rest of the input; with a fraction or an exponent the value would be a
  float, which the model does not represent.\<close>

definition float_tail :: "string \<Rightarrow> bool" where
  "float_tail r \<longleftrightarrow>
     (case r of
        c # d # r' \<Rightarrow>
          (c = CHR ''.'' \<and> is_dec_digit d)
          \<or> ((c = CHR ''e'' \<or> c = CHR ''E'')
             \<and> (is_dec_digit d
                \<or> ((d = CHR ''+'' \<or> d = CHR ''-'') \<and> r' \<noteq> [] \<and> is_dec_digit (hd r'))))
      | _ \<Rightarrow> False)"

definition scan_nat :: "string \<Rightarrow> (nat \<times> string) option" where
  "scan_nat s =
     (case s of
        [] \<Rightarrow> None
      | d # r \<Rightarrow>
          if d = CHR ''0'' then Some (0, r)
          else if is_dec_digit d then Some (digits_val (d # takeWhile is_dec_digit r), dropWhile is_dec_digit r)
          else None)"

definition scan_number :: "string \<Rightarrow> (int \<times> string) option" where
  "scan_number s =
     (let (neg, s1) = (case s of c # r \<Rightarrow> if c = CHR ''-'' then (True, r) else (False, s)
                               | [] \<Rightarrow> (False, s))
      in case scan_nat s1 of
           None \<Rightarrow> None
         | Some (n, r) \<Rightarrow>
             if float_tail r then None
             else Some (if neg then - int n else int n, r))"

text \<open>The outcome of a parser run with a bound on its recursion: a value with the rest of
  the input, a syntax error, or the bound exhausted.\<close>

datatype 'a scan = Scan_ok 'a | Scan_err | Scan_fuel

definition map_scan :: "('a \<Rightarrow> 'b) \<Rightarrow> 'a scan \<Rightarrow> 'b scan" where
  "map_scan f r = (case r of Scan_ok x \<Rightarrow> Scan_ok (f x) | Scan_err \<Rightarrow> Scan_err | Scan_fuel \<Rightarrow> Scan_fuel)"

text \<open>\<open>scan_once\<close>, \<open>JSONArray\<close> and \<open>JSONObject\<close> of \<open>json.scanner\<close> and
  \<open>json.decoder\<close>.  \<open>parse_elems\<close> starts at an array item, \<open>parse_members\<close> at the
  opening quote of an object key; both run to the closing bracket.\<close>

fun parse_value :: "nat \<Rightarrow> string \<Rightarrow> (json \<times> string) scan"
and parse_elems :: "nat \<Rightarrow> string \<Rightarrow> (json list \<times> string) scan"
and parse_members :: "nat \<Rightarrow> string \<Rightarrow> ((string \<times> json) list \<times> string) scan" where
  "parse_value 0 s = Scan_fuel"
| "parse_value (Suc n) s =
     (case s of
        [] \<Rightarrow> Scan_err
      | c # cs \<Rightarrow>
          if c = CHR 0x22 then
            (case scan_str [] cs of Some (str, r) \<Rightarrow> Scan_ok (JStr str, r) | None \<Rightarrow> Scan_err)
          else if c = CHR ''{'' then
            (let r = skip_ws cs in
             if r \<noteq> [] \<and> hd r = CHR ''}'' then Scan_ok (JDict [], tl r)
             else map_scan (\<lambda>(kvs, r'). (JDict (dict_of_pairs kvs), r')) (parse_members n r))
          else if c = CHR ''['' then
            (let r = skip_ws cs in
             if r \<noteq> [] \<and> hd r = CHR '']'' then Scan_ok (JList [], tl r)
             else map_scan (\<lambda>(xs, r'). (JList xs, r')) (parse_elems n r))
          else if prefix ''null'' s then Scan_ok (JNull, drop 4 s)
          else if prefix ''true'' s then Scan_ok (JBool True, drop 4 s)
          else if prefix ''false'' s then Scan_ok (JBool False, drop 5 s)
          else (case scan_number s of Some (i, r) \<Rightarrow> Scan_ok (JInt i, r) | None \<Rightarrow> Scan_err))"
| "parse_elems 0 s = Scan_fuel"
| "parse_elems (Suc n) s =
     (case parse_value n s of
        Scan_ok (v, r) \<Rightarrow>
          (case skip_ws r of
             [] \<Rightarrow> Scan_err
           | c # r' \<Rightarrow>
               if c = CHR '']'' then Scan_ok ([v], r')
               else if c = CHR '','' then
                 map_scan (\<lambda>(vs, r''). (v # vs, r'')) (parse_elems n (skip_ws r'))
               else Scan_err)
      | Scan_err \<Rightarrow> Scan_err
      | Scan_fuel \<Rightarrow> Scan_fuel)"
| "parse_members 0 s = Scan_fuel"
| "parse_members (Suc n) s =
     (case s of
        [] \<Rightarrow> Scan_err
      | c # cs \<Rightarrow>
          if c \<noteq> CHR 0x22 then Scan_err
          else (case scan_str [] cs of
                  None \<Rightarrow> Scan_err
                | Some (k, r) \<Rightarrow>
                    (case skip_ws r of
                       [] \<Rightarrow> Scan_err
                     | c2 # r2 \<Rightarrow>
                         if c2 \<noteq> CHR '':'' then Scan_err
                         else (case parse_value n (skip_ws r2) of
                                 Scan_ok (v, r3) \<Rightarrow>
                                   (case skip_ws r3 of
                                      [] \<Rightarrow> Scan_err
                                    | c3 # r4 \<Rightarrow>
                                        if c3 = CHR ''}'' then Scan_ok ([(k, v)], r4)
                                        else if c3 = CHR '','' then
                                          map_scan (\<lambda>(kvs, r5). ((k, v) # kvs, r5))
                                            (parse_members n (skip_ws r4))
                                        else Scan_err)
                               | Scan_err \<Rightarrow> Scan_err
                               | Scan_fuel \<Rightarrow> Scan_fuel))))"

text \<open>\<open>json.loads\<close> (and \<open>json.load\<close> on a file's content): white space around one value
  and nothing else (\<open>Extra data\<close> otherwise).  The recursion bound \<open>2 * length s + 1\<close>
  is never exhausted (lemma \<open>parse_value_fuel\<close> below), so the bound is not a limit of
  the model.\<close>

definition json_loads :: "string \<Rightarrow> json pyres" where
  "json_loads s =
     (case parse_value (2 * length s + 1) (skip_ws s) of
        Scan_ok (v, r) \<Rightarrow> if skip_ws r = [] then Inr v else Inl JSONDecodeError
      | _ \<Rightarrow> Inl JSONDecodeError)"

text \<open>The parser's result does not depend on its bound once the bound suffices: a run
  that does not exhaust bound \<open>n\<close> gives the same result under any larger bound.\<close>

definition fuel_mono :: "nat \<Rightarrow> bool" where
  "fuel_mono n \<longleftrightarrow> (\<forall>s m. n \<le> m \<longrightarrow>
     (parse_value n s \<noteq> Scan_fuel \<longrightarrow> parse_value m s = parse_value n s) \<and>
     (parse_elems n s \<noteq> Scan_fuel \<longrightarrow> parse_elems m s = parse_elems n s) \<and>
     (parse_members n s \<noteq> Scan_fuel \<longrightarrow> parse_members m s = parse_members n s))"

section \<open>Basic facts\<close>

lemma py_getitem_JDict [simp, py_simps]:
  "py_getitem (JDict kvs) k = (case map_of kvs k of Some x \<Rightarrow> Inr x | None \<Rightarrow> Inl (KeyError k))"
  by (simp add: py_getitem_def)

lemma py_iter_JList [simp, py_simps]: "py_iter (JList xs) = Inr xs"
  by (simp add: py_iter_def)

lemma py_lower_json_JStr [simp, py_simps]: "py_lower_json (JStr s) = Inr (py_lower s)"
  by (simp add: py_lower_json_def)

lemma map_scan_simps [simp]:
  "map_scan f (Scan_ok x) = Scan_ok (f x)"
  "map_scan f Scan_err = Scan_err"
  "map_scan f Scan_fuel = Scan_fuel"
  by (simp_all add: map_scan_def)

lemma map_scan_eq_fuel [simp]: "map_scan f r = Scan_fuel \<longleftrightarrow> r = Scan_fuel"
  by (cases r) simp_all

lemma map_scan_eq_ok: "map_scan f r = Scan_ok y \<longleftrightarrow> (\<exists>x. r = Scan_ok x \<and> y = f x)"
  by (cases r) auto

section \<open>Round trip of the codec\<close>

lemma char_of_eqI: "of_char c = (n::nat) \<Longrightarrow> char_of n = c"
  by (metis char_of_char)

lemma hex_val_hex_digit: "d < 16 \<Longrightarrow> hex_val (hex_digit d) = Some d"
  by (auto simp: hex_val_def hex_digit_def Let_def)


lemma scan_str_escape: "scan_str acc (json_escape_char c @ r) = scan_str (c # acc) r"
proof -
  define n where "n = (of_char c :: nat)"
  have n256: "n < 256" by (simp add: n_def)
  show ?thesis
  proof (cases "c = CHR 0x5C \<or> c = CHR 0x22 \<or> n = 8 \<or> n = 12 \<or> n = 10 \<or> n = 13 \<or> n = 9")
    case True
    then show ?thesis
      by (auto simp: json_escape_char_def json_unescape_def n_def Let_def char_of_eqI)
  next
    case False
    show ?thesis
    proof (cases "32 \<le> n \<and> n \<le> 126")
      case True
      with False show ?thesis
        by (auto simp: json_escape_char_def n_def Let_def)
    next
      case out: False
      have z: "hex_val (CHR ''0'') = Some 0" by (simp add: hex_val_def)
      have "n div 16 < 16" using n256 by simp
      then have "hex4 (CHR ''0'') (CHR ''0'') (hex_digit (n div 16)) (hex_digit (n mod 16)) = Some n"
        by (simp add: hex4_def hex_val_hex_digit z)
      with False out n256 show ?thesis
        by (auto simp: json_escape_char_def n_def Let_def)
    qed
  qed
qed
lemma scan_str_dumps:
  "scan_str acc (concat (map json_escape_char s) @ CHR 0x22 # r) = Some (rev acc @ s, r)"
  by (induction s arbitrary: acc) (simp_all add: scan_str_escape)

declare nat_digits.simps [simp del]

lemma char_of_48 [simp]: "char_of (48::nat) = CHR ''0''"
  by (rule char_of_eqI) simp

lemma nat_digits_digits: "c \<in> set (nat_digits n) \<Longrightarrow> is_dec_digit c"
proof (induction n rule: nat_digits.induct)
  case (1 n)
  then show ?case
    by (subst (asm) nat_digits.simps) (auto simp: is_dec_digit_def split: if_splits)
qed

lemma nat_digits_not_Nil [simp]: "nat_digits n \<noteq> []"
  by (subst nat_digits.simps) simp

lemma digits_val_snoc: "digits_val (xs @ [d]) = 10 * digits_val xs + (of_char d - 48)"
  by (simp add: digits_val_def)

lemma digits_val_nat_digits: "digits_val (nat_digits n) = n"
proof (induction n rule: nat_digits.induct)
  case (1 n)
  then show ?case
    by (subst nat_digits.simps) (auto simp: digits_val_snoc digits_val_def)
qed

lemma hd_nat_digits_zero: "hd (nat_digits n) = CHR ''0'' \<Longrightarrow> n = 0"
proof (induction n rule: nat_digits.induct)
  case (1 n)
  show ?case
  proof (cases "n < 10")
    case True
    with "1.prems" have "char_of (48 + n) = CHR ''0''"
      by (subst (asm) nat_digits.simps) simp
    then have "(48 + n) mod 256 = (48::nat) mod 256"
      by (metis char_of_quasi_inj char_of_48)
    with True show ?thesis by simp
  next
    case False
    with "1.prems" have "hd (nat_digits (n div 10)) = CHR ''0''"
      by (subst (asm) nat_digits.simps) simp
    with "1.IH" False have "n div 10 = 0" by simp
    with False show ?thesis by simp
  qed
qed

definition json_delim :: "string \<Rightarrow> bool" where
  "json_delim r \<longleftrightarrow> r = [] \<or> hd r = CHR '','' \<or> hd r = CHR '']'' \<or> hd r = CHR ''}''"

lemma json_delim_not_digit: "json_delim r \<Longrightarrow> r \<noteq> [] \<Longrightarrow> \<not> is_dec_digit (hd r)"
  by (auto simp: json_delim_def is_dec_digit_def)

lemma json_delim_no_float: "json_delim r \<Longrightarrow> \<not> float_tail r"
  by (auto simp: json_delim_def float_tail_def split: list.splits)

lemma takeWhile_digits_delim:
  assumes "\<forall>c\<in>set ds. is_dec_digit c" and "json_delim r"
  shows "takeWhile is_dec_digit (ds @ r) = ds" and "dropWhile is_dec_digit (ds @ r) = r"
proof -
  have "takeWhile is_dec_digit r = [] \<and> dropWhile is_dec_digit r = r"
    using json_delim_not_digit [OF assms(2)] by (cases r) auto
  then show "takeWhile is_dec_digit (ds @ r) = ds" "dropWhile is_dec_digit (ds @ r) = r"
    using assms(1) by (simp_all add: takeWhile_append dropWhile_append)
qed

lemma scan_nat_digits:
  assumes "json_delim r"
  shows "scan_nat (nat_digits n @ r) = Some (n, r)"
proof (cases "n = 0")
  case True
  then show ?thesis by (simp add: scan_nat_def nat_digits.simps)
next
  case False
  obtain d ds where dd: "nat_digits n = d # ds"
    by (cases "nat_digits n") auto
  have d0: "d \<noteq> CHR ''0''"
    using hd_nat_digits_zero [of n] False dd by auto
  have alld: "\<forall>c\<in>set (d # ds). is_dec_digit c"
    using nat_digits_digits dd by metis
  then have "takeWhile is_dec_digit (ds @ r) = ds" "dropWhile is_dec_digit (ds @ r) = r"
    using takeWhile_digits_delim [OF _ assms] by auto
  then show ?thesis
    using dd d0 alld digits_val_nat_digits [of n] by (simp add: scan_nat_def)
qed

lemma scan_number_int_repr:
  assumes "json_delim r"
  shows "scan_number (int_repr i @ r) = Some (i, r)"
proof (cases "i < 0")
  case True
  have "0 < nat (- i)" using True by simp
  then have "nat_digits (nat (- i)) \<noteq> []" by simp
  with True show ?thesis
    using scan_nat_digits [OF assms, of "nat (- i)"] json_delim_no_float [OF assms]
    by (simp add: scan_number_def int_repr_def)
next
  case False
  obtain d ds where dd: "nat_digits (nat i) = d # ds"
    by (cases "nat_digits (nat i)") auto
  then have "is_dec_digit d" using nat_digits_digits by (metis list.set_intros(1))
  then have "d \<noteq> CHR ''-''" by (auto simp: is_dec_digit_def)
  with False dd show ?thesis
    using scan_nat_digits [OF assms, of "nat i"] json_delim_no_float [OF assms]
    by (simp add: scan_number_def int_repr_def)
qed
lemma int_repr_head: "\<exists>c cs. int_repr i = c # cs \<and> (c = CHR ''-'' \<or> is_dec_digit c)"
proof -
  obtain d ds where dd: "nat_digits (nat (if i < 0 then - i else i)) = d # ds"
    by (cases "nat_digits (nat (if i < 0 then - i else i))") auto
  then have "is_dec_digit d" using nat_digits_digits by (metis list.set_intros(1))
  with dd show ?thesis by (auto simp: int_repr_def)
qed

definition json_start :: "char \<Rightarrow> bool" where
  "json_start c \<longleftrightarrow> \<not> is_json_ws c \<and> c \<noteq> CHR '']'' \<and> c \<noteq> CHR ''}''"

lemma json_dumps_head: "\<exists>c cs. json_dumps v = c # cs \<and> json_start c"
proof (cases v)
  case (JInt i)
  then show ?thesis
    using int_repr_head [of i]
    by (auto simp: json_start_def is_json_ws_def is_dec_digit_def)
qed (auto simp: json_start_def is_json_ws_def json_dumps_str_def)

lemma skip_ws_dumps [simp]: "skip_ws (json_dumps v @ r) = json_dumps v @ r"
  using json_dumps_head [of v] by (auto simp: json_start_def)

lemma skip_ws_dumps_str [simp]: "skip_ws (json_dumps_str k @ r) = json_dumps_str k @ r"
  by (simp add: json_dumps_str_def is_json_ws_def)

lemma parse_value_int:
  assumes "json_delim r"
  shows "parse_value (Suc n) (int_repr i @ r) = Scan_ok (JInt i, r)"
proof -
  obtain c cs where cc: "int_repr i = c # cs" and h: "c = CHR ''-'' \<or> is_dec_digit c"
    using int_repr_head by blast
  have "c \<noteq> CHR 0x22 \<and> c \<noteq> CHR ''{'' \<and> c \<noteq> CHR ''['' \<and> c \<noteq> CHR ''n'' \<and> c \<noteq> CHR ''t''
        \<and> c \<noteq> CHR ''f''" and "CHR ''n'' \<noteq> c \<and> CHR ''t'' \<noteq> c \<and> CHR ''f'' \<noteq> c"
    using h by (auto simp: is_dec_digit_def)
  then show ?thesis
    using scan_number_int_repr [OF assms, of i] cc by simp
qed

lemma dict_update_fresh:
  "k \<notin> fst ` set d \<Longrightarrow> AList.update k v d = d @ [(k, v)]"
  by (induction d) auto

lemma fold_update_fresh:
  "distinct (map fst kvs) \<Longrightarrow> fst ` set d \<inter> fst ` set kvs = {} \<Longrightarrow>
   fold (\<lambda>(k, v) d. AList.update k v d) kvs d = d @ kvs"
proof (induction kvs arbitrary: d)
  case (Cons kv kvs)
  obtain k v where kv: "kv = (k, v)" by fastforce
  with Cons.prems have "AList.update k v d = d @ [(k, v)]"
    by (auto intro: dict_update_fresh)
  moreover have "fold (\<lambda>(k, v) d. AList.update k v d) kvs (d @ [(k, v)]) = (d @ [(k, v)]) @ kvs"
    using Cons.prems kv by (intro Cons.IH) auto
  ultimately show ?case by (simp add: kv)
qed simp

lemma dict_of_pairs_distinct: "distinct (map fst kvs) \<Longrightarrow> dict_of_pairs kvs = kvs"
  using fold_update_fresh [of kvs "[]"] by (simp add: dict_of_pairs_def)
abbreviation dumps_items :: "json list \<Rightarrow> string" where
  "dumps_items xs \<equiv> py_join '', '' (map json_dumps xs)"

abbreviation dumps_members :: "(string \<times> json) list \<Rightarrow> string" where
  "dumps_members kvs \<equiv> py_join '', '' (map (\<lambda>(k, v). json_dumps_str k @ '': '' @ json_dumps v) kvs)"

definition parses_back :: "json \<Rightarrow> bool" where
  "parses_back x \<longleftrightarrow>
     (\<forall>n r. json_delim r \<longrightarrow> 2 * length (json_dumps x) < n
            \<longrightarrow> parse_value n (json_dumps x @ r) = Scan_ok (x, r))"

lemma parses_back_intro:
  assumes "\<And>m r. json_delim r \<Longrightarrow> 2 * length (json_dumps x) \<le> m
             \<Longrightarrow> parse_value (Suc m) (json_dumps x @ r) = Scan_ok (x, r)"
  shows "parses_back x"
  unfolding parses_back_def
proof (intro allI impI)
  fix n r
  assume "json_delim r" and "2 * length (json_dumps x) < n"
  then obtain m where "n = Suc m" and "2 * length (json_dumps x) \<le> m"
    by (cases n) auto
  with assms \<open>json_delim r\<close> show "parse_value n (json_dumps x @ r) = Scan_ok (x, r)"
    by simp
qed

lemma skip_ws_items [simp]:
  "skip_ws (py_join sep (json_dumps y # ys) @ r) = py_join sep (json_dumps y # ys) @ r"
  by (cases ys) simp_all

lemma skip_ws_members [simp]:
  "skip_ws (py_join sep ((json_dumps_str k @ t) # ys) @ r) = py_join sep ((json_dumps_str k @ t) # ys) @ r"
  by (cases ys) simp_all

lemma parse_elems_dumps:
  assumes "\<forall>x\<in>set xs. parses_back x" and "xs \<noteq> []"
    and "2 * length (dumps_items xs) + 1 < n"
  shows "parse_elems n (dumps_items xs @ CHR '']'' # r) = Scan_ok (xs, r)"
  using assms
proof (induction xs arbitrary: n rule: induct_list012)
  case (2 x)
  then obtain m where m: "n = Suc m" and "2 * length (json_dumps x) < m"
    by (cases n) auto
  then have "parse_value m (json_dumps x @ CHR '']'' # r) = Scan_ok (x, CHR '']'' # r)"
    using "2.prems"(1) by (simp add: parses_back_def json_delim_def)
  with m show ?case by (simp add: is_json_ws_def)
next
  case (3 x y zs)
  then obtain m where m: "n = Suc m" by (cases n) auto
  let ?rest = "dumps_items (y # zs) @ CHR '']'' # r"
  have "parse_value m (json_dumps x @ '', '' @ ?rest) = Scan_ok (x, '', '' @ ?rest)"
    using "3.prems" m by (simp add: parses_back_def json_delim_def)
  moreover have "parse_elems m ?rest = Scan_ok (y # zs, r)"
    using "3.prems" m by (intro "3.IH") auto
  ultimately show ?case
    using m by (simp add: is_json_ws_def)
qed simp

lemma parse_members_dumps:
  assumes "\<forall>kv\<in>set kvs. parses_back (snd kv)" and "kvs \<noteq> []"
    and "2 * length (dumps_members kvs) + 1 < n"
  shows "parse_members n (dumps_members kvs @ CHR ''}'' # r) = Scan_ok (kvs, r)"
  using assms
proof (induction kvs arbitrary: n rule: induct_list012)
  case (2 kv)
  obtain k v where kv: "kv = (k, v)" by fastforce
  from 2 obtain m where m: "n = Suc m" and "2 * length (json_dumps v) < m"
    by (cases n) (auto simp: kv)
  then have "parse_value m (json_dumps v @ CHR ''}'' # r) = Scan_ok (v, CHR ''}'' # r)"
    using "2.prems"(1) kv by (simp add: parses_back_def json_delim_def)
  with m kv show ?case
    by (simp add: json_dumps_str_def scan_str_dumps is_json_ws_def)
next
  case (3 kv kv' kvs)
  obtain k v where kv: "kv = (k, v)" by fastforce
  from 3 obtain m where m: "n = Suc m" by (cases n) auto
  let ?rest = "dumps_members (kv' # kvs) @ CHR ''}'' # r"
  have "parse_value m (json_dumps v @ '', '' @ ?rest) = Scan_ok (v, '', '' @ ?rest)"
    using "3.prems" m kv by (simp add: parses_back_def json_delim_def)
  moreover have "parse_members m ?rest = Scan_ok (kv' # kvs, r)"
    using "3.prems" m by (intro "3.IH") auto
  moreover have "skip_ws ?rest = ?rest"
    by (cases kv') (simp only: list.map prod.case skip_ws_members)
  ultimately show ?case
    using m kv by (simp add: json_dumps_str_def scan_str_dumps is_json_ws_def)
qed simp

lemma parses_back_all: "json_wf v \<Longrightarrow> parses_back v"
proof (induction v)
  case JNull
  show ?case by (rule parses_back_intro) simp
next
  case (JBool b)
  show ?case by (rule parses_back_intro) simp
next
  case (JInt i)
  show ?case
    by (rule parses_back_intro) (simp only: json_dumps.simps parse_value_int)
next
  case (JStr s)
  show ?case
    by (rule parses_back_intro) (simp add: json_dumps_str_def scan_str_dumps)
next
  case (JList xs)
  have all: "\<forall>x\<in>set xs. parses_back x"
    using JList by (simp add: list_all_iff)
  show ?case
  proof (cases "xs = []")
    case True
    show ?thesis by (rule parses_back_intro) (simp add: True is_json_ws_def)
  next
    case False
    obtain y ys where yy: "xs = y # ys" using False by (cases xs) auto
    have hd: "skip_ws (dumps_items xs @ r') = dumps_items xs @ r' \<and> hd (dumps_items xs @ r') \<noteq> CHR '']''" for r'
      using json_dumps_head [of y] by (cases ys) (auto simp: yy json_start_def)
    show ?thesis
      unfolding parses_back_def
    proof (intro allI impI)
      fix n r
      assume "2 * length (json_dumps (JList xs)) < n"
      then obtain m where m: "n = Suc m" and "2 * length (dumps_items xs) + 1 < m"
        by (cases n) auto
      then have "parse_elems m (dumps_items xs @ CHR '']'' # r) = Scan_ok (xs, r)"
        using parse_elems_dumps all False by blast
      then show "parse_value n (json_dumps (JList xs) @ r) = Scan_ok (JList xs, r)"
        using m hd [of "CHR '']'' # r"] False by (simp add: yy)
    qed
  qed
next
  case (JDict kvs)
  have all: "\<forall>kv\<in>set kvs. parses_back (snd kv)"
    using JDict by (fastforce simp: list_all_iff)
  have dist: "distinct (map fst kvs)" using JDict.prems by simp
  show ?case
  proof (cases "kvs = []")
    case True
    show ?thesis by (rule parses_back_intro) (simp add: True is_json_ws_def)
  next
    case False
    obtain k v ys where yy: "kvs = (k, v) # ys" using False by (cases kvs) auto
    have hd: "skip_ws (dumps_members kvs @ r') = dumps_members kvs @ r' \<and> hd (dumps_members kvs @ r') \<noteq> CHR ''}''" for r'
      by (cases ys) (auto simp: yy json_dumps_str_def is_json_ws_def)
    show ?thesis
      unfolding parses_back_def
    proof (intro allI impI)
      fix n r
      assume "2 * length (json_dumps (JDict kvs)) < n"
      then obtain m where m: "n = Suc m" and "2 * length (dumps_members kvs) + 1 < m"
        by (cases n) auto
      then have "parse_members m (dumps_members kvs @ CHR ''}'' # r) = Scan_ok (kvs, r)"
        using parse_members_dumps all False by blast
      then show "parse_value n (json_dumps (JDict kvs) @ r) = Scan_ok (JDict kvs, r)"
        using m hd [of "CHR ''}'' # r"] False dict_of_pairs_distinct [OF dist] by (simp add: yy)
    qed
  qed
qed

lemma json_roundtrip: "json_wf v \<Longrightarrow> json_loads (json_dumps v) = Inr v"
proof -
  assume wf: "json_wf v"
  have "json_delim []" by (simp add: json_delim_def)
  moreover have "2 * length (json_dumps v) < 2 * length (json_dumps v) + 1" by simp
  ultimately have "parse_value (2 * length (json_dumps v) + 1) (json_dumps v @ []) = Scan_ok (v, [])"
    using parses_back_all [OF wf] unfolding parses_back_def by blast
  then have p: "parse_value (2 * length (json_dumps v) + 1) (json_dumps v) = Scan_ok (v, [])"
    by (simp only: append_Nil2)
  have w: "skip_ws (json_dumps v) = json_dumps v"
    using skip_ws_dumps [of v "[]"] by (simp only: append_Nil2)
  show ?thesis
    unfolding json_loads_def w p by simp
qed

section \<open>The parser returns Python values and always finishes\<close>

text \<open>What \<open>json.loads\<close> returns is a value a Python program holds: \<open>dict(pairs)\<close>
  keeps one entry per key.\<close>

lemma update_snd_set: "snd ` set (AList.update k v d) \<subseteq> insert v (snd ` set d)"
  by (induction d) auto

lemma fold_update_wf:
  assumes "distinct (map fst d)" "\<forall>x\<in>set d. P (snd x)" "\<forall>x\<in>set kvs. P (snd x)"
  shows "distinct (map fst (fold (\<lambda>(k, v) d. AList.update k v d) kvs d)) \<and>
         (\<forall>x\<in>set (fold (\<lambda>(k, v) d. AList.update k v d) kvs d). P (snd x))"
  using assms
proof (induction kvs arbitrary: d)
  case (Cons kv kvs)
  obtain k v where kv: "kv = (k, v)" by fastforce
  have "distinct (map fst (AList.update k v d))" using Cons.prems(1) by (simp add: distinct_update)
  moreover have "\<forall>x\<in>set (AList.update k v d). P (snd x)"
    using update_snd_set [of k v d] Cons.prems(2,3) kv by fastforce
  ultimately show ?case using Cons.IH [of "AList.update k v d"] Cons.prems(3) kv by simp
qed simp

lemma distinct_dict_of_pairs [simp]: "distinct (map fst (dict_of_pairs kvs))"
  using fold_update_wf [of "[]" "\<lambda>_. True" kvs] by (simp add: dict_of_pairs_def)

lemma list_all_dict_of_pairs:
  "\<forall>x\<in>set kvs. P (snd x) \<Longrightarrow> list_all (\<lambda>kv. P (snd kv)) (dict_of_pairs kvs)"
  using fold_update_wf [of "[]" P kvs] by (simp add: dict_of_pairs_def list_all_iff)


text \<open>One equation per first character of a value, so that the proofs below unfold
  one branch of \<open>parse_value\<close> at a time.\<close>

lemma parse_value_Suc_str: "parse_value (Suc n) (CHR 0x22 # cs) = (case scan_str [] cs of Some (str, r) \<Rightarrow> Scan_ok (JStr str, r) | None \<Rightarrow> Scan_err)"
  by simp

lemma parse_value_Suc_obj: "parse_value (Suc n) (CHR ''{'' # cs) =
     (if skip_ws cs \<noteq> [] \<and> hd (skip_ws cs) = CHR ''}'' then Scan_ok (JDict [], tl (skip_ws cs))
      else map_scan (\<lambda>(kvs, r'). (JDict (dict_of_pairs kvs), r')) (parse_members n (skip_ws cs)))"
  by (simp add: Let_def)

lemma parse_value_Suc_arr: "parse_value (Suc n) (CHR ''['' # cs) =
     (if skip_ws cs \<noteq> [] \<and> hd (skip_ws cs) = CHR '']'' then Scan_ok (JList [], tl (skip_ws cs))
      else map_scan (\<lambda>(xs, r'). (JList xs, r')) (parse_elems n (skip_ws cs)))"
  by (simp add: Let_def)

lemma parse_value_Suc_other: "c \<noteq> CHR 0x22 \<Longrightarrow> c \<noteq> CHR ''{'' \<Longrightarrow> c \<noteq> CHR ''['' \<Longrightarrow>
   parse_value (Suc n) (c # cs) =
     (if prefix ''null'' (c # cs) then Scan_ok (JNull, drop 4 (c # cs))
      else if prefix ''true'' (c # cs) then Scan_ok (JBool True, drop 4 (c # cs))
      else if prefix ''false'' (c # cs) then Scan_ok (JBool False, drop 5 (c # cs))
      else (case scan_number (c # cs) of Some (i, r) \<Rightarrow> Scan_ok (JInt i, r) | None \<Rightarrow> Scan_err))"
  by (simp only: parse_value.simps list.case if_False simp_thms)

lemma parse_value_str_ok:
  "parse_value (Suc n) (CHR 0x22 # cs) = Scan_ok (v, r) \<Longrightarrow> \<exists>str. scan_str [] cs = Some (str, r) \<and> v = JStr str"
  by (auto simp: parse_value_Suc_str simp del: parse_value.simps split: option.splits)

lemma parse_value_obj_ok:
  "parse_value (Suc n) (CHR ''{'' # cs) = Scan_ok (v, r) \<Longrightarrow>
   (skip_ws cs \<noteq> [] \<and> hd (skip_ws cs) = CHR ''}'' \<and> r = tl (skip_ws cs) \<and> v = JDict []) \<or>
   (\<exists>kvs. \<not> (skip_ws cs \<noteq> [] \<and> hd (skip_ws cs) = CHR ''}'') \<and>
      parse_members n (skip_ws cs) = Scan_ok (kvs, r) \<and> v = JDict (dict_of_pairs kvs))"
  by (auto simp: parse_value_Suc_obj map_scan_eq_ok simp del: parse_value.simps split: if_splits)

lemma parse_value_arr_ok:
  "parse_value (Suc n) (CHR ''['' # cs) = Scan_ok (v, r) \<Longrightarrow>
   (skip_ws cs \<noteq> [] \<and> hd (skip_ws cs) = CHR '']'' \<and> r = tl (skip_ws cs) \<and> v = JList []) \<or>
   (\<exists>vs. \<not> (skip_ws cs \<noteq> [] \<and> hd (skip_ws cs) = CHR '']'') \<and>
      parse_elems n (skip_ws cs) = Scan_ok (vs, r) \<and> v = JList vs)"
  by (auto simp: parse_value_Suc_arr map_scan_eq_ok simp del: parse_value.simps split: if_splits)

lemma parse_value_lit_ok:
  assumes c: "c \<noteq> CHR 0x22" "c \<noteq> CHR ''{''" "c \<noteq> CHR ''[''"
    and p: "parse_value (Suc n) (c # cs) = Scan_ok (v, r)"
  shows "(\<exists>w. w \<in> {''null'', ''true'', ''false''} \<and> prefix w (c # cs) \<and> r = drop (length w) (c # cs) \<and>
            v \<in> {JNull, JBool True, JBool False}) \<or>
         (\<exists>i. scan_number (c # cs) = Some (i, r) \<and> v = JInt i)"
proof -
  note e = trans [OF p [symmetric] parse_value_Suc_other [OF c]]
  consider (n) "prefix ''null'' (c # cs)"
    | (t) "\<not> prefix ''null'' (c # cs)" "prefix ''true'' (c # cs)"
    | (f) "\<not> prefix ''null'' (c # cs)" "\<not> prefix ''true'' (c # cs)" "prefix ''false'' (c # cs)"
    | (o) "\<not> prefix ''null'' (c # cs)" "\<not> prefix ''true'' (c # cs)" "\<not> prefix ''false'' (c # cs)"
    by blast
  then show ?thesis
  proof cases
    case n
    with e have "Scan_ok (v, r) = Scan_ok (JNull, drop 4 (c # cs))" by (simp only: if_True)
    then have "r = drop (length ''null'') (c # cs) \<and> v = JNull" by (simp add: eval_nat_numeral)
    with n show ?thesis by blast
  next
    case t
    with e have "Scan_ok (v, r) = Scan_ok (JBool True, drop 4 (c # cs))" by (simp only: if_True if_False)
    then have "r = drop (length ''true'') (c # cs) \<and> v = JBool True" by (simp add: eval_nat_numeral)
    with t show ?thesis by blast
  next
    case f
    with e have "Scan_ok (v, r) = Scan_ok (JBool False, drop 5 (c # cs))" by (simp only: if_True if_False)
    then have "r = drop (length ''false'') (c # cs) \<and> v = JBool False" by (simp add: eval_nat_numeral)
    with f show ?thesis by blast
  next
    case o
    with e have "Scan_ok (v, r) = (case scan_number (c # cs) of Some (i, r) \<Rightarrow> Scan_ok (JInt i, r) | None \<Rightarrow> Scan_err)"
      by (simp only: if_False)
    then show ?thesis by (auto split: option.splits)
  qed
qed

lemma parse_wf:
  shows "parse_value n s = Scan_ok (v, r) \<Longrightarrow> json_wf v"
    and "parse_elems n s = Scan_ok (vs, r) \<Longrightarrow> list_all json_wf vs"
    and "parse_members n s = Scan_ok (kvs, r) \<Longrightarrow> \<forall>x\<in>set kvs. json_wf (snd x)"
proof (induction n s and n s and n s arbitrary: v r and vs r and kvs r
       rule: parse_value_parse_elems_parse_members.induct)
  case (2 n s)
  obtain c cs where s: "s = c # cs" using "2.prems" by (cases s) auto
  consider "c = CHR 0x22" | "c = CHR ''{''" | "c = CHR ''[''"
    | "c \<noteq> CHR 0x22" "c \<noteq> CHR ''{''" "c \<noteq> CHR ''[''" by blast
  then show ?case
  proof cases
    case 1
    then show ?thesis using parse_value_str_ok "2.prems" s by fastforce
  next
    case 2
    have "\<And>kvs r. \<not> (skip_ws cs \<noteq> [] \<and> hd (skip_ws cs) = CHR ''}'') \<Longrightarrow>
            parse_members n (skip_ws cs) = Scan_ok (kvs, r) \<Longrightarrow> \<forall>x\<in>set kvs. json_wf (snd x)"
      using "2.IH"(1) s 2 by fastforce
    then show ?thesis
      using parse_value_obj_ok [of n cs v r] "2.prems" s 2 by (auto intro!: list_all_dict_of_pairs)
  next
    case 3
    have "\<And>vs r. \<not> (skip_ws cs \<noteq> [] \<and> hd (skip_ws cs) = CHR '']'') \<Longrightarrow>
            parse_elems n (skip_ws cs) = Scan_ok (vs, r) \<Longrightarrow> list_all json_wf vs"
      using "2.IH"(2) s 3 by fastforce
    then show ?thesis using parse_value_arr_ok [of n cs v r] "2.prems" s 3 by auto
  next
    case 4
    then show ?thesis using parse_value_lit_ok [of c n cs v r] "2.prems" s by auto
  qed
next
  case (4 n s)
  then show ?case
    by (auto simp: map_scan_eq_ok split: list.splits if_splits scan.splits prod.splits)
next
  case (6 n s)
  then show ?case
    by (auto simp: map_scan_eq_ok split: list.splits if_splits scan.splits prod.splits option.splits)
       (metis snd_conv)
qed simp_all


lemma json_loads_wf: "json_loads s = Inr v \<Longrightarrow> json_wf v"
  unfolding json_loads_def
  by (auto split: scan.splits prod.splits if_splits simp del: parse_value.simps intro: parse_wf(1))

text \<open>Every successful parse consumes input, so the bound \<open>2 * length s + 1\<close> of
  \<open>json_loads\<close> is never exhausted: each level of nesting costs two units of the bound
  and consumes at least one character.\<close>

lemma scan_str_shorter: "scan_str acc s = Some (x, r) \<Longrightarrow> length r < length s"
proof (induction acc s arbitrary: x rule: scan_str.induct)
  case (2 acc c cs)
  consider (q) "c = CHR 0x22" | (esc) "c = CHR 0x5C" | (plain) "c \<noteq> CHR 0x22" "c \<noteq> CHR 0x5C"
    by blast
  then show ?case
  proof cases
    case q
    then show ?thesis using "2.prems" by auto
  next
    case plain
    then show ?thesis using "2.prems" "2.IH"(3) by (fastforce split: if_splits)
  next
    case esc
    then obtain e cs' where cs: "cs = e # cs'" using "2.prems" by (cases cs) auto
    show ?thesis
    proof (cases "e = CHR ''u''")
      case True
      then obtain h1 h2 h3 h4 rest n where
        "cs' = h1 # h2 # h3 # h4 # rest" "hex4 h1 h2 h3 h4 = Some n" "n < 256"
        "scan_str (char_of n # acc) rest = Some (x, r)"
        using "2.prems" esc cs by (auto split: list.splits option.splits if_splits)
      then show ?thesis using "2.IH"(1) esc cs True by fastforce
    next
      case False
      then obtain ch where "json_unescape e = Some ch" "scan_str (ch # acc) cs' = Some (x, r)"
        using "2.prems" esc cs by (auto split: option.splits)
      then show ?thesis using "2.IH"(2) esc cs False by fastforce
    qed
  qed
qed simp

lemma length_dropWhile_less: "length (dropWhile P xs) < Suc (length xs)"
  using length_dropWhile_le [of P xs] by simp

lemma scan_number_shorter: "scan_number s = Some (i, r) \<Longrightarrow> length r < length s"
  using length_dropWhile_less [of is_dec_digit]
  by (auto simp: scan_number_def scan_nat_def less_SucI
           split: list.splits if_splits option.splits prod.splits)

lemma skip_ws_le: "length (skip_ws s) \<le> length s"
  by (rule length_dropWhile_le)

lemma parse_shorter:
  shows "parse_value n s = Scan_ok (v, r) \<Longrightarrow> length r < length s"
    and "parse_elems n s = Scan_ok (vs, r) \<Longrightarrow> length r < length s"
    and "parse_members n s = Scan_ok (kvs, r) \<Longrightarrow> length r < length s"
proof (induction n s and n s and n s arbitrary: v r and vs r and kvs r
       rule: parse_value_parse_elems_parse_members.induct)
  case (2 n s)
  obtain c cs where s: "s = c # cs" using "2.prems" by (cases s) auto
  have le: "length (skip_ws cs) < length s" using skip_ws_le [of cs] s by simp
  consider "c = CHR 0x22" | "c = CHR ''{''" | "c = CHR ''[''"
    | "c \<noteq> CHR 0x22" "c \<noteq> CHR ''{''" "c \<noteq> CHR ''[''" by blast
  then show ?case
  proof cases
    case 1
    then show ?thesis using parse_value_str_ok "2.prems" s scan_str_shorter by fastforce
  next
    case 2
    have "\<And>kvs r. \<not> (skip_ws cs \<noteq> [] \<and> hd (skip_ws cs) = CHR ''}'') \<Longrightarrow>
            parse_members n (skip_ws cs) = Scan_ok (kvs, r) \<Longrightarrow> length r < length (skip_ws cs)"
      using "2.IH"(1) s 2 by fastforce
    then show ?thesis using parse_value_obj_ok [of n cs v r] "2.prems" s 2 le by auto
  next
    case 3
    have "\<And>vs r. \<not> (skip_ws cs \<noteq> [] \<and> hd (skip_ws cs) = CHR '']'') \<Longrightarrow>
            parse_elems n (skip_ws cs) = Scan_ok (vs, r) \<Longrightarrow> length r < length (skip_ws cs)"
      using "2.IH"(2) s 3 by fastforce
    then show ?thesis using parse_value_arr_ok [of n cs v r] "2.prems" s 3 le by auto
  next
    case 4
    then have "(\<exists>w. w \<in> {''null'', ''true'', ''false''} \<and> prefix w (c # cs) \<and> r = drop (length w) (c # cs) \<and>
                   v \<in> {JNull, JBool True, JBool False}) \<or>
               (\<exists>i. scan_number (c # cs) = Some (i, r) \<and> v = JInt i)"
      using parse_value_lit_ok [of c n cs v r] "2.prems" s by blast
    then show ?thesis using s by (auto dest: scan_number_shorter)
  qed
next
  case (4 n s)
  obtain v1 r1 where pv: "parse_value n s = Scan_ok (v1, r1)"
    using "4.prems" by (auto split: scan.splits)
  have l1: "length r1 < length s" using "4.IH"(1) pv by blast
  obtain c r' where sk: "skip_ws r1 = c # r'"
    using "4.prems" pv by (auto split: list.splits)
  have l2: "length r' < length s" using skip_ws_le [of r1] sk l1 by simp
  have m: "\<And>vs r''. c \<noteq> CHR '']'' \<Longrightarrow> c = CHR '','' \<Longrightarrow>
             parse_elems n (skip_ws r') = Scan_ok (vs, r'') \<Longrightarrow> length r'' < length (skip_ws r')"
    using "4.IH"(2) pv sk by fastforce
  show ?case
    using "4.prems" pv sk l2 m skip_ws_le [of r']
    by (auto simp: map_scan_eq_ok split: if_splits)
next
  case (6 n s)
  obtain cs where s: "s = CHR 0x22 # cs"
    using "6.prems" by (auto split: list.splits if_splits)
  obtain k r1 where ss: "scan_str [] cs = Some (k, r1)"
    using "6.prems" s by (auto split: option.splits)
  obtain r2 where sk1: "skip_ws r1 = CHR '':'' # r2"
    using "6.prems" s ss by (auto split: list.splits if_splits)
  obtain v1 r3 where pv: "parse_value n (skip_ws r2) = Scan_ok (v1, r3)"
    using "6.prems" s ss sk1 by (auto split: scan.splits)
  obtain c r4 where sk2: "skip_ws r3 = c # r4"
    using "6.prems" s ss sk1 pv by (auto split: list.splits)
  have l1: "length r1 < length cs" using scan_str_shorter [OF ss] .
  have l3: "length r3 < length (skip_ws r2)" using "6.IH"(1) s ss sk1 pv by fastforce
  have l4: "length r4 < length s"
    using l1 l3 sk1 sk2 s skip_ws_le [of r1] skip_ws_le [of r2] skip_ws_le [of r3] by simp
  have m: "\<And>kvs r5. c \<noteq> CHR ''}'' \<Longrightarrow> c = CHR '','' \<Longrightarrow>
             parse_members n (skip_ws r4) = Scan_ok (kvs, r5) \<Longrightarrow> length r5 < length (skip_ws r4)"
    using "6.IH"(2) s ss sk1 pv sk2 by fastforce
  show ?case
    using "6.prems" s ss sk1 pv sk2 l4 m skip_ws_le [of r4]
    by (auto simp: map_scan_eq_ok split: if_splits)
qed simp_all

lemma parse_fuel:
  shows "2 * length s + 1 \<le> n \<Longrightarrow> parse_value n s \<noteq> Scan_fuel"
    and "2 * length s + 2 \<le> n \<Longrightarrow> parse_elems n s \<noteq> Scan_fuel"
    and "2 * length s + 2 \<le> n \<Longrightarrow> parse_members n s \<noteq> Scan_fuel"
proof (induction n s and n s and n s rule: parse_value_parse_elems_parse_members.induct)
  case (2 n s)
  show ?case
  proof (cases s)
    case (Cons c cs)
    have b: "2 * length (skip_ws cs) + 2 \<le> n" using "2.prems" Cons skip_ws_le [of cs] by simp
    have m: "c = CHR ''{'' \<Longrightarrow> \<not> (skip_ws cs \<noteq> [] \<and> hd (skip_ws cs) = CHR ''}'') \<Longrightarrow>
             parse_members n (skip_ws cs) \<noteq> Scan_fuel"
      using "2.IH"(1) Cons b by fastforce
    have e: "c = CHR ''['' \<Longrightarrow> \<not> (skip_ws cs \<noteq> [] \<and> hd (skip_ws cs) = CHR '']'') \<Longrightarrow>
             parse_elems n (skip_ws cs) \<noteq> Scan_fuel"
      using "2.IH"(2) Cons b by fastforce
    show ?thesis
      using Cons m e by (auto simp: Let_def split: if_splits option.splits prod.splits)
  qed simp
next
  case (4 n s)
  have v: "parse_value n s \<noteq> Scan_fuel" using "4.IH"(1) "4.prems" by simp
  show ?case
  proof (cases "parse_value n s")
    case (Scan_ok vr)
    obtain v1 r1 where vr: "vr = (v1, r1)" by fastforce
    have l1: "length r1 < length s" using parse_shorter(1) Scan_ok vr by blast
    show ?thesis
    proof (cases "skip_ws r1")
      case (Cons c r')
      have b: "2 * length (skip_ws r') + 2 \<le> n"
        using "4.prems" l1 Cons skip_ws_le [of r1] skip_ws_le [of r'] by simp
      have m: "c \<noteq> CHR '']'' \<Longrightarrow> c = CHR '','' \<Longrightarrow> parse_elems n (skip_ws r') \<noteq> Scan_fuel"
        using "4.IH"(2) Scan_ok vr Cons b by fastforce
      show ?thesis using Scan_ok vr Cons m by auto
    qed (use Scan_ok vr in \<open>simp del: dropWhile_eq_Nil_conv\<close>)
  qed (use v in simp_all)
next
  case (6 n s)
  show ?case
  proof (cases "\<exists>cs k r1 r2. s = CHR 0x22 # cs \<and> scan_str [] cs = Some (k, r1) \<and>
                               skip_ws r1 = CHR '':'' # r2")
    case True
    then obtain cs k r1 r2 where s: "s = CHR 0x22 # cs" and ss: "scan_str [] cs = Some (k, r1)"
      and sk1: "skip_ws r1 = CHR '':'' # r2" by blast
    have l2: "length (skip_ws r2) < length s"
      using scan_str_shorter [OF ss] s sk1 skip_ws_le [of r1] skip_ws_le [of r2] by simp
    have v: "parse_value n (skip_ws r2) \<noteq> Scan_fuel"
      using "6.IH"(1) s ss sk1 "6.prems" l2 by fastforce
    show ?thesis
    proof (cases "parse_value n (skip_ws r2)")
      case (Scan_ok vr)
      obtain v1 r3 where vr: "vr = (v1, r3)" by fastforce
      have l3: "length r3 < length s" using parse_shorter(1) Scan_ok vr l2 by fastforce
      show ?thesis
      proof (cases "skip_ws r3")
        case (Cons c r4)
        have b: "2 * length (skip_ws r4) + 2 \<le> n"
          using "6.prems" l3 Cons skip_ws_le [of r3] skip_ws_le [of r4] by simp
        have m: "c \<noteq> CHR ''}'' \<Longrightarrow> c = CHR '','' \<Longrightarrow> parse_members n (skip_ws r4) \<noteq> Scan_fuel"
          using "6.IH"(2) s ss sk1 Scan_ok vr Cons b by fastforce
        show ?thesis using s ss sk1 Scan_ok vr Cons m by auto
      qed (use s ss sk1 Scan_ok vr in \<open>simp del: dropWhile_eq_Nil_conv\<close>)
    qed (use s ss sk1 v in simp_all)
  next
    case False
    then show ?thesis
      by (auto split: list.splits option.splits if_splits)
  qed
qed simp_all

lemma parse_value_fuel: "parse_value (2 * length s + 1) (skip_ws s) \<noteq> Scan_fuel"
proof -
  have "2 * length (skip_ws s) + 1 \<le> 2 * length s + 1" using skip_ws_le [of s] by simp
  then show ?thesis by (rule parse_fuel(1))
qed

text \<open>A run that does not exhaust its bound gives the same result under any larger
  bound, so the bound of \<open>json_loads\<close> loses nothing: \<open>json_loads\<close> accepts a text
  exactly when some run of the parser, however deep, accepts it.\<close>

lemma parse_value_mono_step:
  assumes ih: "fuel_mono n" and "n \<le> m'" and ne: "parse_value (Suc n) s \<noteq> Scan_fuel"
  shows "parse_value (Suc m') s = parse_value (Suc n) s"
proof (cases s)
  case (Cons c cs)
  have e: "parse_elems n r \<noteq> Scan_fuel \<Longrightarrow> parse_elems m' r = parse_elems n r"
   and o: "parse_members n r \<noteq> Scan_fuel \<Longrightarrow> parse_members m' r = parse_members n r" for r
    using ih assms(2) unfolding fuel_mono_def by blast+
  consider (str) "c = CHR 0x22" | (obj) "c = CHR ''{''" | (arr) "c = CHR ''[''"
    | (other) "c \<noteq> CHR 0x22" "c \<noteq> CHR ''{''" "c \<noteq> CHR ''[''" by blast
  then show ?thesis
  proof cases
    case str
    then show ?thesis by (simp only: Cons parse_value_Suc_str)
  next
    case obj
    show ?thesis
    proof (cases "skip_ws cs \<noteq> [] \<and> hd (skip_ws cs) = CHR ''}''")
      case True
      show ?thesis by (simp only: Cons obj parse_value_Suc_obj if_P [OF True])
    next
      case False
      have nf: "parse_members n (skip_ws cs) \<noteq> Scan_fuel"
        using ne by (simp only: Cons obj parse_value_Suc_obj if_not_P [OF False] map_scan_eq_fuel not_False_eq_True)
      show ?thesis by (simp only: Cons obj parse_value_Suc_obj if_not_P [OF False] o [OF nf])
    qed
  next
    case arr
    show ?thesis
    proof (cases "skip_ws cs \<noteq> [] \<and> hd (skip_ws cs) = CHR '']''")
      case True
      show ?thesis by (simp only: Cons arr parse_value_Suc_arr if_P [OF True])
    next
      case False
      have nf: "parse_elems n (skip_ws cs) \<noteq> Scan_fuel"
        using ne by (simp only: Cons arr parse_value_Suc_arr if_not_P [OF False] map_scan_eq_fuel not_False_eq_True)
      show ?thesis by (simp only: Cons arr parse_value_Suc_arr if_not_P [OF False] e [OF nf])
    qed
  next
    case other
    show ?thesis by (simp only: Cons parse_value_Suc_other [OF other])
  qed
qed (simp only: parse_value.simps(2) list.case(1))

lemma parse_elems_mono_step:
  assumes ih: "fuel_mono n" and nm: "n \<le> m'" and ne: "parse_elems (Suc n) s \<noteq> Scan_fuel"
  shows "parse_elems (Suc m') s = parse_elems (Suc n) s"
proof -
  have v: "parse_value n s \<noteq> Scan_fuel" using ne by (auto split: scan.splits)
  have pv: "parse_value m' s = parse_value n s" using ih nm v unfolding fuel_mono_def by blast
  have e: "parse_elems n r \<noteq> Scan_fuel \<Longrightarrow> parse_elems m' r = parse_elems n r" for r
    using ih nm unfolding fuel_mono_def by blast
  show ?thesis
  proof (cases "parse_value n s")
    case (Scan_ok vr)
    obtain v1 r1 where vr: "vr = (v1, r1)" by fastforce
    show ?thesis
    proof (cases "skip_ws r1")
      case (Cons c r')
      show ?thesis using ne pv Scan_ok vr Cons e by (auto simp del: parse_value.simps)
    qed (use pv Scan_ok vr in \<open>simp del: parse_value.simps dropWhile_eq_Nil_conv\<close>)
  qed (use v pv in \<open>simp_all del: parse_value.simps\<close>)
qed

lemma parse_members_mono_step:
  assumes ih: "fuel_mono n" and nm: "n \<le> m'" and ne: "parse_members (Suc n) s \<noteq> Scan_fuel"
  shows "parse_members (Suc m') s = parse_members (Suc n) s"
proof (cases "\<exists>cs k r1 r2. s = CHR 0x22 # cs \<and> scan_str [] cs = Some (k, r1) \<and>
                             skip_ws r1 = CHR '':'' # r2")
  case True
  then obtain cs k r1 r2 where s: "s = CHR 0x22 # cs" and ss: "scan_str [] cs = Some (k, r1)"
    and sk1: "skip_ws r1 = CHR '':'' # r2" by blast
  have v: "parse_value n (skip_ws r2) \<noteq> Scan_fuel"
    using ne s ss sk1 by (auto split: scan.splits simp del: parse_value.simps)
  have pv: "parse_value m' (skip_ws r2) = parse_value n (skip_ws r2)"
    using ih nm v unfolding fuel_mono_def by blast
  have o: "parse_members n r \<noteq> Scan_fuel \<Longrightarrow> parse_members m' r = parse_members n r" for r
    using ih nm unfolding fuel_mono_def by blast
  show ?thesis
  proof (cases "parse_value n (skip_ws r2)")
    case (Scan_ok vr)
    obtain v1 r3 where vr: "vr = (v1, r3)" by fastforce
    show ?thesis
    proof (cases "skip_ws r3")
      case (Cons c r4)
      show ?thesis using ne s ss sk1 pv Scan_ok vr Cons o by (auto simp del: parse_value.simps)
    qed (use s ss sk1 pv Scan_ok vr in \<open>simp del: parse_value.simps dropWhile_eq_Nil_conv\<close>)
  qed (use s ss sk1 v pv in \<open>simp_all del: parse_value.simps\<close>)
next
  case False
  then show ?thesis by (auto split: list.splits option.splits if_splits simp del: parse_value.simps)
qed

lemma fuel_mono_all: "fuel_mono n"
proof (induction n)
  case 0
  then show ?case by (simp add: fuel_mono_def)
next
  case (Suc n)
  show ?case unfolding fuel_mono_def
  proof (intro allI impI conjI)
    fix s m
    assume "Suc n \<le> m"
    then obtain m' where m: "m = Suc m'" "n \<le> m'" by (cases m) auto
    show "parse_value (Suc n) s \<noteq> Scan_fuel \<Longrightarrow> parse_value m s = parse_value (Suc n) s"
      using parse_value_mono_step [OF Suc.IH m(2)] m(1) by simp
    show "parse_elems (Suc n) s \<noteq> Scan_fuel \<Longrightarrow> parse_elems m s = parse_elems (Suc n) s"
      using parse_elems_mono_step [OF Suc.IH m(2)] m(1) by simp
    show "parse_members (Suc n) s \<noteq> Scan_fuel \<Longrightarrow> parse_members m s = parse_members (Suc n) s"
      using parse_members_mono_step [OF Suc.IH m(2)] m(1) by simp
  qed
qed

lemma json_loads_unbounded:
  "json_loads s = Inr v \<longleftrightarrow> (\<exists>n r. parse_value n (skip_ws s) = Scan_ok (v, r) \<and> skip_ws r = [])"
proof
  assume "json_loads s = Inr v"
  then show "\<exists>n r. parse_value n (skip_ws s) = Scan_ok (v, r) \<and> skip_ws r = []"
    unfolding json_loads_def by (auto split: scan.splits prod.splits if_splits simp del: parse_value.simps)
next
  assume "\<exists>n r. parse_value n (skip_ws s) = Scan_ok (v, r) \<and> skip_ws r = []"
  then obtain n r where p: "parse_value n (skip_ws s) = Scan_ok (v, r)" and e: "skip_ws r = []" by blast
  let ?b = "2 * length s + 1"
  have "parse_value (max ?b n) (skip_ws s) = parse_value ?b (skip_ws s)"
    using fuel_mono_all [of ?b] parse_value_fuel [of s] unfolding fuel_mono_def by simp
  moreover have "parse_value (max ?b n) (skip_ws s) = parse_value n (skip_ws s)"
    using fuel_mono_all [of n] p unfolding fuel_mono_def by simp
  ultimately show "json_loads s = Inr v" using p e by (simp add: json_loads_def del: parse_value.simps)
qed

end
