(* ===== verification/Filesystem.thy ===== *)
theory Filesystem
  imports Json
begin

text \<open>
  The part of the operating system the service uses: a tree of directories and files
  addressed by path strings, with the Python functions \<open>os.path.join\<close>,
  \<open>os.path.exists\<close>, \<open>os.path.isdir\<close>, \<open>os.mkdir\<close>, \<open>os.makedirs\<close> and \<open>open\<close> for
  reading and writing a whole file.  A path string is resolved component by component as
  the kernel does: every component before the last must be an existing directory,
  \<open>.\<close> and empty components stay, \<open>..\<close> goes up.  Paths are resolved from the root
  (the cache directory of the program is absolute).  Symbolic links, permissions and the
  mode argument of \<open>os.mkdir\<close> are not modelled.
\<close>

section \<open>The file tree\<close>

datatype node = Dir | File string

type_synonym path = "string list"
type_synonym filesystem = "path \<Rightarrow> node option"

text \<open>The root is a directory and every other entry lies in a directory.\<close>

definition fs_wf :: "filesystem \<Rightarrow> bool" where
  "fs_wf fs \<longleftrightarrow> fs [] = Some Dir \<and> (\<forall>p. p \<noteq> [] \<and> fs p \<noteq> None \<longrightarrow> fs (butlast p) = Some Dir)"

text \<open>The operations only add entries and rewrite files: directories stay, entries stay.\<close>

definition fs_le :: "filesystem \<Rightarrow> filesystem \<Rightarrow> bool" where
  "fs_le fs fs' \<longleftrightarrow> (\<forall>q. fs q = Some Dir \<longrightarrow> fs' q = Some Dir) \<and> (\<forall>q. fs q \<noteq> None \<longrightarrow> fs' q \<noteq> None)"

section \<open>Path strings\<close>

definition path_step :: "path \<Rightarrow> string \<Rightarrow> path" where
  "path_step cur c = (if c = [] \<or> c = ''.'' then cur else if c = ''..'' then butlast cur else cur @ [c])"

fun walk :: "filesystem \<Rightarrow> path \<Rightarrow> string list \<Rightarrow> path pyres" where
  "walk fs cur [] = Inr cur"
| "walk fs cur [c] = Inr (path_step cur c)"
| "walk fs cur (c # d # cs) =
     (let cur' = path_step cur c in
      if c = [] \<or> c = ''.'' \<or> c = ''..'' then walk fs cur' (d # cs)
      else (case fs cur' of
              Some Dir \<Rightarrow> walk fs cur' (d # cs)
            | Some (File _) \<Rightarrow> Inl NotADirectoryError
            | None \<Rightarrow> Inl FileNotFoundError))"

definition resolve :: "filesystem \<Rightarrow> string \<Rightarrow> path pyres" where
  "resolve fs p = (if p = [] then Inl FileNotFoundError else walk fs [] (py_split CHR ''/'' p))"

text \<open>\<open>posixpath.join(a, b)\<close>.\<close>

definition path_join :: "string \<Rightarrow> string \<Rightarrow> string" where
  "path_join a b =
     (if py_startswith b ''/'' then b
      else if a = [] \<or> last a = CHR ''/'' then a @ b
      else a @ ''/'' @ b)"

text \<open>\<open>posixpath.split(p)\<close>: the part after the last slash, and the part before it with
  trailing slashes removed unless it consists of slashes only.\<close>

definition path_split :: "string \<Rightarrow> string \<times> string" where
  "path_split p =
     (let tail = rev (takeWhile (\<lambda>c. c \<noteq> CHR ''/'') (rev p));
          head = take (length p - length tail) p
      in (if head \<noteq> [] \<and> \<not> (\<forall>c\<in>set head. c = CHR ''/'')
          then rev (dropWhile (\<lambda>c. c = CHR ''/'') (rev head)) else head, tail))"

section \<open>Operations\<close>

definition os_path_exists :: "filesystem \<Rightarrow> string \<Rightarrow> bool" where
  "os_path_exists fs p = (case resolve fs p of Inr q \<Rightarrow> fs q \<noteq> None | Inl _ \<Rightarrow> False)"

definition os_path_isdir :: "filesystem \<Rightarrow> string \<Rightarrow> bool" where
  "os_path_isdir fs p = (case resolve fs p of Inr q \<Rightarrow> fs q = Some Dir | Inl _ \<Rightarrow> False)"

definition os_mkdir :: "string \<Rightarrow> filesystem \<Rightarrow> filesystem pyres" where
  "os_mkdir p fs =
     (case resolve fs p of
        Inl e \<Rightarrow> Inl e
      | Inr q \<Rightarrow>
          if fs q \<noteq> None then Inl FileExistsError
          else if fs (butlast q) \<noteq> Some Dir then Inl FileNotFoundError
          else Inr (fs(q \<mapsto> Dir)))"

text \<open>\<open>open(p, 'w')\<close> followed by writing the whole content: the file is created or
  truncated and rewritten.\<close>

definition write_file :: "string \<Rightarrow> string \<Rightarrow> filesystem \<Rightarrow> filesystem pyres" where
  "write_file p content fs =
     (case resolve fs p of
        Inl e \<Rightarrow> Inl e
      | Inr q \<Rightarrow>
          if fs q = Some Dir then Inl IsADirectoryError
          else if fs (butlast q) \<noteq> Some Dir then Inl FileNotFoundError
          else Inr (fs(q \<mapsto> File content)))"

text \<open>\<open>open(p, 'r').read()\<close>.\<close>

definition read_file :: "filesystem \<Rightarrow> string \<Rightarrow> string pyres" where
  "read_file fs p =
     (case resolve fs p of
        Inl e \<Rightarrow> Inl e
      | Inr q \<Rightarrow> (case fs q of
                   None \<Rightarrow> Inl FileNotFoundError
                 | Some Dir \<Rightarrow> Inl IsADirectoryError
                 | Some (File c) \<Rightarrow> Inr c))"

text \<open>The two splits \<open>os.makedirs\<close> starts with: a path ending in a slash is split
  again.\<close>

definition makedirs_split :: "string \<Rightarrow> string \<times> string" where
  "makedirs_split name =
     (let (head, tail) = path_split name in if tail = [] then path_split head else (head, tail))"

lemma path_split_length:
  assumes "path_split p = (h, t)"
  shows "length h + length t \<le> length p"
proof -
  define tl where "tl = rev (takeWhile (\<lambda>c. c \<noteq> CHR ''/'') (rev p))"
  define hd where "hd = take (length p - length tl) p"
  have lt: "length tl \<le> length p"
    unfolding tl_def by (metis length_rev length_takeWhile_le)
  have ht: "h = (if hd \<noteq> [] \<and> \<not> (\<forall>c\<in>set hd. c = CHR ''/'')
                 then rev (dropWhile (\<lambda>c. c = CHR ''/'') (rev hd)) else hd) \<and> t = tl"
    using assms unfolding path_split_def Let_def tl_def hd_def by (simp only: prod.inject) blast
  have "length (rev (dropWhile (\<lambda>c. c = CHR ''/'') (rev hd))) \<le> length hd"
    by (metis length_dropWhile_le length_rev)
  then have "length h \<le> length hd" using ht by (cases "hd \<noteq> [] \<and> \<not> (\<forall>c\<in>set hd. c = CHR ''/'')") simp_all
  moreover have "length hd = length p - length tl" using lt by (simp add: hd_def)
  ultimately show ?thesis using ht lt by simp
qed

lemma makedirs_split_shorter:
  assumes "makedirs_split name = (h, t)" and "t \<noteq> []"
  shows "length h < length name"
proof (cases "path_split name")
  case (Pair h1 t1)
  have l1: "length h1 + length t1 \<le> length name" by (rule path_split_length [OF Pair])
  show ?thesis
  proof (cases "t1 = []")
    case True
    with assms Pair have "path_split h1 = (h, t)" by (simp add: makedirs_split_def)
    then have "length h + length t \<le> length h1" by (rule path_split_length)
    moreover from assms(2) have "0 < length t" by simp
    ultimately show ?thesis using l1 by linarith
  next
    case False
    with assms Pair have "h = h1" and "t = t1" by (simp_all add: makedirs_split_def)
    with l1 have "length h + length t \<le> length name" by simp
    moreover from assms(2) have "0 < length t" by simp
    ultimately show ?thesis by linarith
  qed
qed

text \<open>\<open>os.makedirs(name)\<close> with \<open>exist_ok=False\<close>: the missing parent is created first
  (a \<open>FileExistsError\<close> there is ignored), a final component \<open>.\<close> stops, and the last
  directory is made with \<open>os.mkdir\<close>, whose errors propagate.\<close>

function os_makedirs :: "string \<Rightarrow> filesystem \<Rightarrow> filesystem pyres" where
  "os_makedirs name fs =
     (case makedirs_split name of
        (head, tail) \<Rightarrow>
          if head \<noteq> [] \<and> tail \<noteq> [] \<and> \<not> os_path_exists fs head then
            (case os_makedirs head fs of
               Inl FileExistsError \<Rightarrow> (if tail = ''.'' then Inr fs else os_mkdir name fs)
             | Inl e \<Rightarrow> Inl e
             | Inr fs' \<Rightarrow> (if tail = ''.'' then Inr fs' else os_mkdir name fs'))
          else os_mkdir name fs)"
  by pat_completeness auto
termination
  by (relation "measure (\<lambda>(name, fs). length name)")
     (auto dest: makedirs_split_shorter [OF sym])

declare os_makedirs.simps [simp del]

section \<open>Facts about the operations\<close>

lemma py_split_append_sep: "py_split c (s @ c # t) = py_split c s @ py_split c t"
  by (induction s) (auto simp: Let_def)

lemma fs_le_refl [simp]: "fs_le fs fs"
  by (simp add: fs_le_def)

lemma fs_le_trans: "fs_le a b \<Longrightarrow> fs_le b c \<Longrightarrow> fs_le a c"
  by (simp add: fs_le_def)

lemma walk_mono: "fs_le fs fs' \<Longrightarrow> walk fs cur cs = Inr q \<Longrightarrow> walk fs' cur cs = Inr q"
proof (induction fs cur cs rule: walk.induct)
  case (3 fs cur c d cs)
  then show ?case
    by (auto simp: Let_def fs_le_def split: if_splits option.splits node.splits)
qed simp_all

lemma resolve_mono: "fs_le fs fs' \<Longrightarrow> resolve fs p = Inr q \<Longrightarrow> resolve fs' p = Inr q"
  by (auto simp: resolve_def intro: walk_mono split: if_splits)

lemma os_path_exists_iff: "os_path_exists fs p \<longleftrightarrow> (\<exists>q. resolve fs p = Inr q \<and> fs q \<noteq> None)"
  by (simp add: os_path_exists_def split: sum.splits)

lemma os_path_isdir_iff: "os_path_isdir fs p \<longleftrightarrow> (\<exists>q. resolve fs p = Inr q \<and> fs q = Some Dir)"
  by (simp add: os_path_isdir_def split: sum.splits)

lemma os_path_exists_mono: "fs_le fs fs' \<Longrightarrow> os_path_exists fs p \<Longrightarrow> os_path_exists fs' p"
  unfolding os_path_exists_iff fs_le_def by (metis resolve_mono fs_le_def)

lemma os_path_isdir_mono: "fs_le fs fs' \<Longrightarrow> os_path_isdir fs p \<Longrightarrow> os_path_isdir fs' p"
  unfolding os_path_isdir_iff by (metis resolve_mono fs_le_def)

lemma os_mkdir_Inr:
  "os_mkdir p fs = Inr fs' \<longleftrightarrow>
   (\<exists>q. resolve fs p = Inr q \<and> fs q = None \<and> fs (butlast q) = Some Dir \<and> fs' = fs(q \<mapsto> Dir))"
  by (auto simp: os_mkdir_def split: sum.splits if_splits)

lemma write_file_Inr:
  "write_file p c fs = Inr fs' \<longleftrightarrow>
   (\<exists>q. resolve fs p = Inr q \<and> fs q \<noteq> Some Dir \<and> fs (butlast q) = Some Dir \<and> fs' = fs(q \<mapsto> File c))"
  by (auto simp: write_file_def split: sum.splits if_splits)

lemma fs_le_os_mkdir: "os_mkdir p fs = Inr fs' \<Longrightarrow> fs_le fs fs'"
  by (auto simp: os_mkdir_Inr fs_le_def)

lemma fs_le_write_file: "write_file p c fs = Inr fs' \<Longrightarrow> fs_le fs fs'"
  by (auto simp: write_file_Inr fs_le_def)

lemma fs_le_os_makedirs: "os_makedirs name fs = Inr fs' \<Longrightarrow> fs_le fs fs'"
proof (induction name fs arbitrary: fs' rule: os_makedirs.induct)
  case (1 name fs)
  obtain head tail where ht: "makedirs_split name = (head, tail)" by fastforce
  show ?case
  proof (cases "head \<noteq> [] \<and> tail \<noteq> [] \<and> \<not> os_path_exists fs head")
    case True
    note IH = "1.IH" [OF ht [symmetric] True]
    show ?thesis
    proof (cases "os_makedirs head fs")
      case (Inl e)
      then show ?thesis
        using "1.prems" ht True
        by (cases e) (auto simp: os_makedirs.simps [of name] fs_le_os_mkdir split: if_splits)
    next
      case (Inr fs1)
      with IH have "fs_le fs fs1" by simp
      then show ?thesis
        using "1.prems" ht True Inr
        by (auto simp: os_makedirs.simps [of name] split: if_splits
                 intro: fs_le_trans dest: fs_le_os_mkdir)
    qed
  next
    case False
    then show ?thesis
      using "1.prems" ht by (auto simp: os_makedirs.simps [of name] fs_le_os_mkdir)
  qed
qed

lemma butlast_neq: "q \<noteq> [] \<Longrightarrow> butlast q \<noteq> q"
  by (metis append_butlast_last_id append_self_conv list.distinct(1))

lemma fs_wf_upd:
  assumes wf: "fs_wf fs" and q: "q \<noteq> []" and parent: "fs (butlast q) = Some Dir"
    and leaf: "fs q \<noteq> Some Dir \<or> n = Dir"
  shows "fs_wf (fs(q \<mapsto> n))"
  unfolding fs_wf_def
proof (intro conjI allI impI)
  show "(fs(q \<mapsto> n)) [] = Some Dir" using wf q by (simp add: fs_wf_def)
next
  fix p assume p: "p \<noteq> [] \<and> (fs(q \<mapsto> n)) p \<noteq> None"
  show "(fs(q \<mapsto> n)) (butlast p) = Some Dir"
  proof (cases "p = q")
    case True
    then show ?thesis using parent butlast_neq [OF q] by simp
  next
    case False
    with p wf have pd: "fs (butlast p) = Some Dir" by (simp add: fs_wf_def)
    show ?thesis
      using pd leaf by (cases "butlast p = q") auto
  qed
qed

lemma fs_wf_root: "fs_wf fs \<Longrightarrow> fs q \<noteq> Some Dir \<Longrightarrow> q \<noteq> []"
  by (auto simp: fs_wf_def)

lemma fs_wf_os_mkdir: "fs_wf fs \<Longrightarrow> os_mkdir p fs = Inr fs' \<Longrightarrow> fs_wf fs'"
  by (auto simp: os_mkdir_Inr intro!: fs_wf_upd dest: fs_wf_root)

lemma fs_wf_write_file: "fs_wf fs \<Longrightarrow> write_file p c fs = Inr fs' \<Longrightarrow> fs_wf fs'"
  by (auto simp: write_file_Inr intro!: fs_wf_upd dest: fs_wf_root)
lemma fs_wf_os_makedirs: "fs_wf fs \<Longrightarrow> os_makedirs name fs = Inr fs' \<Longrightarrow> fs_wf fs'"
proof (induction name fs arbitrary: fs' rule: os_makedirs.induct)
  case (1 name fs)
  obtain head tail where ht: "makedirs_split name = (head, tail)" by fastforce
  show ?case
  proof (cases "head \<noteq> [] \<and> tail \<noteq> [] \<and> \<not> os_path_exists fs head")
    case True
    note IH = "1.IH" [OF ht [symmetric] True]
    show ?thesis
    proof (cases "os_makedirs head fs")
      case (Inl e)
      then show ?thesis
        using "1.prems" ht True
        by (cases e) (auto simp: os_makedirs.simps [of name] fs_wf_os_mkdir split: if_splits)
    next
      case (Inr fs1)
      with IH "1.prems"(1) have "fs_wf fs1" by simp
      then show ?thesis
        using "1.prems" ht True Inr
        by (auto simp: os_makedirs.simps [of name] split: if_splits dest: fs_wf_os_mkdir)
    qed
  next
    case False
    then show ?thesis
      using "1.prems" ht by (auto simp: os_makedirs.simps [of name] fs_wf_os_mkdir)
  qed
qed

lemma fs_wf_step_dir:
  "fs_wf fs \<Longrightarrow> fs cur = Some Dir \<Longrightarrow> (c = [] \<or> c = ''.'' \<or> c = ''..'')
   \<Longrightarrow> fs (path_step cur c) = Some Dir"
  by (cases "cur = []") (auto simp: path_step_def fs_wf_def)

text \<open>A walk that goes on after \<open>cs\<close> has passed \<open>cs\<close> as directories.\<close>

lemma walk_Cons:
  "xs \<noteq> [] \<Longrightarrow> walk fs cur (c # xs) =
     (if c = [] \<or> c = ''.'' \<or> c = ''..'' then walk fs (path_step cur c) xs
      else (case fs (path_step cur c) of Some Dir \<Rightarrow> walk fs (path_step cur c) xs
            | Some (File _) \<Rightarrow> Inl NotADirectoryError | None \<Rightarrow> Inl FileNotFoundError))"
  by (cases xs) (auto simp: Let_def split: option.splits node.splits)

lemma walk_prefix_dir:
  assumes "fs_wf fs" and "fs cur = Some Dir" and "walk fs cur (cs @ d # ds) = Inr q"
  shows "\<exists>q'. walk fs cur (cs @ [[]]) = Inr q' \<and> fs q' = Some Dir"
  using assms(2,3)
proof (induction cs arbitrary: cur)
  case Nil
  then show ?case by (simp add: path_step_def)
next
  case (Cons c cs)
  let ?cur' = "path_step cur c"
  note w = walk_Cons [of "cs @ d # ds" fs cur c, simplified]
  note w' = walk_Cons [of "cs @ [[]]" fs cur c, simplified]
  show ?case
  proof (cases "c = [] \<or> c = ''.'' \<or> c = ''..''")
    case True
    then have "fs ?cur' = Some Dir" using fs_wf_step_dir [OF assms(1) Cons.prems(1)] by blast
    then show ?thesis using Cons.IH Cons.prems(2) True w w' by simp
  next
    case False
    with Cons.prems(2) w have "fs ?cur' = Some Dir" and "walk fs ?cur' (cs @ d # ds) = Inr q"
      by (auto split: option.splits node.splits)
    then show ?thesis using Cons.IH False w' by simp
  qed
qed

lemma walk_trailing_empty:
  "cs \<noteq> [] \<Longrightarrow> walk fs cur (cs @ [[]]) = Inr q \<Longrightarrow> walk fs cur cs = Inr q"
proof (induction cs arbitrary: cur)
  case (Cons c cs)
  show ?case
  proof (cases cs)
    case Nil
    with Cons.prems show ?thesis
      by (auto simp: Let_def path_step_def split: if_splits option.splits node.splits)
  next
    case (Cons c' cs')
    with Cons.prems Cons.IH show ?thesis
      by (auto simp: Let_def split: if_splits option.splits node.splits)
  qed
qed simp

text \<open>\<open>os.path.join(a, b)\<close> resolves only if \<open>a\<close> is a directory.\<close>

lemma resolve_join_isdir:
  assumes wf: "fs_wf fs" and a: "a \<noteq> []" and b: "\<not> py_startswith b ''/''"
    and r: "resolve fs (path_join a b) = Inr q"
  shows "os_path_isdir fs a"
proof -
  have root: "fs [] = Some Dir" using wf by (simp add: fs_wf_def)
  have "a = butlast a @ [last a]" using a by simp
  then obtain s where s: "(a = s @ ''/'' \<and> path_join a b = s @ ''/'' @ b)
                     \<or> (last a \<noteq> CHR ''/'' \<and> s = a \<and> path_join a b = s @ ''/'' @ b)"
    using a b by (cases "last a = CHR ''/''") (auto simp: path_join_def)
  obtain d ds where sb: "py_split CHR ''/'' b = d # ds"
    by (cases "py_split CHR ''/'' b") auto
  have "walk fs [] (py_split CHR ''/'' s @ d # ds) = Inr q"
    using r s sb by (auto simp: resolve_def py_split_append_sep)
  then obtain q' where q': "walk fs [] (py_split CHR ''/'' s @ [[]]) = Inr q'" "fs q' = Some Dir"
    using walk_prefix_dir [OF wf root] by blast
  show ?thesis
  proof (cases "a = s @ ''/''")
    case True
    then have "resolve fs a = Inr q'"
      using q' by (simp add: resolve_def py_split_append_sep)
    with q' show ?thesis by (simp add: os_path_isdir_iff)
  next
    case False
    with s have "s = a" by auto
    then have "resolve fs a = Inr q'"
      using q' a walk_trailing_empty [of "py_split CHR ''/'' a"] by (simp add: resolve_def)
    with q' show ?thesis by (simp add: os_path_isdir_iff)
  qed
qed

lemma os_mkdir_isdir: "os_mkdir p fs = Inr fs' \<Longrightarrow> os_path_isdir fs' p"
proof -
  assume m: "os_mkdir p fs = Inr fs'"
  then obtain q where "resolve fs p = Inr q" "fs' = fs(q \<mapsto> Dir)"
    by (auto simp: os_mkdir_Inr)
  moreover have "fs_le fs fs'" using m by (rule fs_le_os_mkdir)
  ultimately show ?thesis by (auto simp: os_path_isdir_iff dest: resolve_mono)
qed

lemma write_file_read_back:
  "write_file p c fs = Inr fs' \<Longrightarrow> read_file fs' p = Inr c"
proof -
  assume w: "write_file p c fs = Inr fs'"
  then obtain q where "resolve fs p = Inr q" "fs' = fs(q \<mapsto> File c)"
    by (auto simp: write_file_Inr)
  moreover have "fs_le fs fs'" using w by (rule fs_le_write_file)
  ultimately show ?thesis by (auto simp: read_file_def dest: resolve_mono)
qed

lemma write_file_exists: "write_file p c fs = Inr fs' \<Longrightarrow> os_path_exists fs' p"
  by (drule write_file_read_back)
     (auto simp: read_file_def os_path_exists_def split: sum.splits option.splits)

lemma py_split_no_sep: "c \<notin> set s \<Longrightarrow> py_split c s = [s]"
  by (induction s) (auto simp: Let_def)

lemma walk_snoc_dir:
  "walk t cur (xs @ [x]) = Inr q \<Longrightarrow> t q = Some Dir \<Longrightarrow>
   walk t cur (xs @ [x, n]) = Inr (path_step q n)"
proof (induction xs arbitrary: cur)
  case Nil
  then show ?case by (auto simp: Let_def)
next
  case (Cons y ys)
  have "walk t cur (y # ys @ [x]) = Inr q" using Cons.prems(1) by simp
  then show ?case
    using Cons.IH [of "path_step cur y"] Cons.prems(2)
    by (auto simp: walk_Cons split: if_splits option.splits node.splits)
qed

text \<open>A name without a slash that is not \<open>.\<close> or \<open>..\<close> steps one level down.\<close>

lemma path_step_name:
  "n \<noteq> [] \<Longrightarrow> n \<noteq> ''.'' \<Longrightarrow> n \<noteq> ''..'' \<Longrightarrow> path_step q n = q @ [n]"
  by (simp add: path_step_def)

lemma resolve_join_name:
  assumes r: "resolve t a = Inr q" and d: "t q = Some Dir"
    and n: "n \<noteq> []" "n \<noteq> ''.''" "n \<noteq> ''..''" "CHR ''/'' \<notin> set n"
  shows "resolve t (path_join a n) = Inr (q @ [n])"
proof -
  have a: "a \<noteq> []" using r by (auto simp: resolve_def split: if_splits)
  have ns: "\<not> py_startswith n ''/''" using n by (cases n) (auto simp: py_startswith_def)
  have pn: "py_split CHR ''/'' n = [n]" using n by (simp add: py_split_no_sep)
  obtain s where s: "(a = s @ ''/'' \<and> path_join a n = s @ ''/'' @ n)
                     \<or> (last a \<noteq> CHR ''/'' \<and> s = a \<and> path_join a n = s @ ''/'' @ n)"
  proof -
    have "a = butlast a @ [last a]" using a by simp
    then show thesis
      using that a ns by (cases "last a = CHR ''/''") (auto simp: path_join_def)
  qed
  have w: "walk t [] (py_split CHR ''/'' s) = Inr q"
  proof (cases "a = s @ ''/''")
    case True
    then have "walk t [] (py_split CHR ''/'' s @ [[]]) = Inr q"
      using r by (simp add: resolve_def py_split_append_sep)
    then show ?thesis by (rule walk_trailing_empty [rotated]) simp
  next
    case False
    with s r a show ?thesis by (auto simp: resolve_def)
  qed
  obtain ys y where ys: "py_split CHR ''/'' s = ys @ [y]"
    by (metis py_split_not_Nil rev_exhaust)
  have "walk t [] (ys @ [y, n]) = Inr (q @ [n])"
    using walk_snoc_dir [of t "[]" ys y q n] w ys d path_step_name [OF n(1-3)] by simp
  then show ?thesis
    using s ys pn by (auto simp: resolve_def py_split_append_sep)
qed

lemma read_file_frame:
  "fs_le t t' \<Longrightarrow> resolve t p = Inr q \<Longrightarrow> t' q = t q \<Longrightarrow> read_file t' p = read_file t p"
  by (simp add: read_file_def resolve_mono)

end
