(* ===== verification/Matcher.thy ===== *)
theory Matcher
  imports Complex_Main Prelude
begin

text \<open>
  \<open>difflib.SequenceMatcher(None, a, b).ratio()\<close> of the Python standard library, which
  \<open>get_doc_entries\<close> uses to rank the entries: the index \<open>b2j\<close> of the second sequence
  with the ``popular'' elements removed (\<open>autojunk\<close>, sequences of 200 or more), the
  dynamic programme of \<open>find_longest_match\<close> with its four extension loops, the
  work-stack loop of \<open>get_matching_blocks\<close>, and the ratio \<open>2 M / T\<close>.  With
  \<open>isjunk=None\<close> the junk set is empty, so its predicate is constantly false.  Python
  computes the ratio as a float; the model computes the exact rational, which the float
  rounds monotonically.  The work-stack loop runs on fuel; the last section proves that its
  bound \<open>2 * length a + 2\<close> always suffices (each turn lowers the stack's weight) and that
  the blocks fit in both sequences, so the ratio lies between 0 and 1.
\<close>

type_synonym match = "nat \<times> nat \<times> nat"

section \<open>The index of the second sequence\<close>

definition popular :: "string \<Rightarrow> char \<Rightarrow> bool" where
  "popular b c \<longleftrightarrow> 200 \<le> length b \<and> length b div 100 + 1 < count_list b c"

definition b2j :: "string \<Rightarrow> char \<Rightarrow> nat list" where
  "b2j b c = (if popular b c then [] else filter (\<lambda>j. b ! j = c) [0..<length b])"

definition isbjunk :: "char \<Rightarrow> bool" where
  "isbjunk c = False"

section \<open>find_longest_match\<close>

text \<open>The inner loop over the positions \<open>j\<close> of \<open>a[i]\<close> in \<open>b\<close>: \<open>j2len\<close> of the
  previous row, the row being built, the best match so far.  \<open>j2len.get(j - 1, 0)\<close> at
  \<open>j = 0\<close> looks up the key \<open>-1\<close>, which is never present.\<close>

fun flm_row :: "(nat \<Rightarrow> nat) \<Rightarrow> nat \<Rightarrow> nat \<Rightarrow> nat \<Rightarrow> nat list \<Rightarrow> (nat \<Rightarrow> nat) \<Rightarrow> match
                 \<Rightarrow> (nat \<Rightarrow> nat) \<times> match" where
  "flm_row j2len i blo bhi [] new best = (new, best)"
| "flm_row j2len i blo bhi (j # js) new (bi, bj, bs) =
     (if j < blo then flm_row j2len i blo bhi js new (bi, bj, bs)
      else if bhi \<le> j then (new, (bi, bj, bs))
      else
        (let k = (if j = 0 then 0 else j2len (j - 1)) + 1
         in flm_row j2len i blo bhi js (new(j := k))
              (if bs < k then (i + 1 - k, j + 1 - k, k) else (bi, bj, bs))))"

fun flm_rows :: "string \<Rightarrow> string \<Rightarrow> nat \<Rightarrow> nat \<Rightarrow> nat list \<Rightarrow> (nat \<Rightarrow> nat) \<Rightarrow> match \<Rightarrow> match" where
  "flm_rows a b blo bhi [] j2len best = best"
| "flm_rows a b blo bhi (i # is) j2len best =
     (case flm_row j2len i blo bhi (b2j b (a ! i)) (\<lambda>_. 0) best of
        (new, best') \<Rightarrow> flm_rows a b blo bhi is new best')"

text \<open>\<open>while besti > alo and bestj > blo and P(b[bestj-1]) and a[besti-1] == b[bestj-1]\<close>.\<close>

function extend_left :: "(char \<Rightarrow> bool) \<Rightarrow> string \<Rightarrow> string \<Rightarrow> nat \<Rightarrow> nat \<Rightarrow> match \<Rightarrow> match" where
  "extend_left P a b alo blo (i, j, k) =
     (if alo < i \<and> blo < j \<and> P (b ! (j - 1)) \<and> a ! (i - 1) = b ! (j - 1)
      then extend_left P a b alo blo (i - 1, j - 1, k + 1) else (i, j, k))"
  by pat_completeness auto
termination
  by (relation "measure (\<lambda>(P, a, b, alo, blo, i, j, k). i)") auto

text \<open>\<open>while besti+bestsize < ahi and bestj+bestsize < bhi and P(b[bestj+bestsize])
  and a[besti+bestsize] == b[bestj+bestsize]\<close>.\<close>

function extend_right :: "(char \<Rightarrow> bool) \<Rightarrow> string \<Rightarrow> string \<Rightarrow> nat \<Rightarrow> nat \<Rightarrow> match \<Rightarrow> match" where
  "extend_right P a b ahi bhi (i, j, k) =
     (if i + k < ahi \<and> j + k < bhi \<and> P (b ! (j + k)) \<and> a ! (i + k) = b ! (j + k)
      then extend_right P a b ahi bhi (i, j, k + 1) else (i, j, k))"
  by pat_completeness auto
termination
  by (relation "measure (\<lambda>(P, a, b, ahi, bhi, i, j, k). ahi - (i + k))") auto

declare extend_left.simps [simp del] extend_right.simps [simp del]

definition find_longest_match :: "string \<Rightarrow> string \<Rightarrow> nat \<Rightarrow> nat \<Rightarrow> nat \<Rightarrow> nat \<Rightarrow> match" where
  "find_longest_match a b alo ahi blo bhi =
     (let best = flm_rows a b blo bhi [alo..<ahi] (\<lambda>_. 0) (alo, blo, 0);
          best = extend_left (\<lambda>c. \<not> isbjunk c) a b alo blo best;
          best = extend_right (\<lambda>c. \<not> isbjunk c) a b ahi bhi best;
          best = extend_left isbjunk a b alo blo best
      in extend_right isbjunk a b ahi bhi best)"

section \<open>get_matching_blocks and ratio\<close>

text \<open>The loop \<open>while queue: alo, ahi, blo, bhi = queue.pop() ...\<close> with the stack top
  first, run on fuel; \<open>None\<close> is fuel exhausted.  The sum of the block sizes is what
  \<open>ratio\<close> needs; the final sort and the merge of adjacent blocks do not change it.\<close>

fun mb_loop :: "nat \<Rightarrow> string \<Rightarrow> string \<Rightarrow> (nat \<times> nat \<times> nat \<times> nat) list \<Rightarrow> match list
                \<Rightarrow> match list option" where
  "mb_loop fuel a b q acc =
     (case fuel of
        0 \<Rightarrow> None
      | Suc n \<Rightarrow>
          (case q of
             [] \<Rightarrow> Some acc
           | (alo, ahi, blo, bhi) # q' \<Rightarrow>
               (case find_longest_match a b alo ahi blo bhi of
                  (i, j, k) \<Rightarrow>
                    if k = 0 then mb_loop n a b q' acc
                    else mb_loop n a b
                           ((if i + k < ahi \<and> j + k < bhi then [(i + k, ahi, j + k, bhi)] else [])
                            @ (if alo < i \<and> blo < j then [(alo, i, blo, j)] else []) @ q')
                           (acc @ [(i, j, k)]))))"

declare mb_loop.simps [simp del]

definition matching_blocks :: "string \<Rightarrow> string \<Rightarrow> match list option" where
  "matching_blocks a b = mb_loop (2 * length a + 2) a b [(0, length a, 0, length b)] []"

definition seq_ratio :: "string \<Rightarrow> string \<Rightarrow> rat" where
  "seq_ratio a b =
     (let matches = (case matching_blocks a b of
                       Some bs \<Rightarrow> sum_list (map (\<lambda>(i, j, k). k) bs) | None \<Rightarrow> 0);
          len = length a + length b
      in if len = 0 then 1 else 2 * of_nat matches / of_nat len)"

section \<open>Measures of the loops\<close>

text \<open>A block \<open>(i, j, k)\<close> inside the ranges \<open>a[alo:ahi]\<close> and \<open>b[blo:bhi]\<close>; a range of
  the work stack; the weight of the stack (each range counts twice its width plus one),
  which every turn of the loop decreases; the widths of the ranges on each side; the total
  size of a list of blocks; the bound on the \<open>j2len\<close> row of \<open>find_longest_match\<close>.\<close>

definition in_range :: "nat \<Rightarrow> nat \<Rightarrow> nat \<Rightarrow> nat \<Rightarrow> match \<Rightarrow> bool" where
  "in_range alo ahi blo bhi m \<longleftrightarrow>
     (case m of (i, j, k) \<Rightarrow> alo \<le> i \<and> i + k \<le> ahi \<and> blo \<le> j \<and> j + k \<le> bhi)"

definition range_ok :: "nat \<times> nat \<times> nat \<times> nat \<Rightarrow> bool" where
  "range_ok r \<longleftrightarrow> (case r of (alo, ahi, blo, bhi) \<Rightarrow> alo \<le> ahi \<and> blo \<le> bhi)"

definition mb_weight :: "(nat \<times> nat \<times> nat \<times> nat) list \<Rightarrow> nat" where
  "mb_weight q = sum_list (map (\<lambda>(alo, ahi, blo, bhi). 2 * (ahi - alo) + 1) q)"

definition a_width :: "(nat \<times> nat \<times> nat \<times> nat) list \<Rightarrow> nat" where
  "a_width q = sum_list (map (\<lambda>(alo, ahi, blo, bhi). ahi - alo) q)"

definition b_width :: "(nat \<times> nat \<times> nat \<times> nat) list \<Rightarrow> nat" where
  "b_width q = sum_list (map (\<lambda>(alo, ahi, blo, bhi). bhi - blo) q)"

definition blocks_size :: "match list \<Rightarrow> nat" where
  "blocks_size bs = sum_list (map (\<lambda>(i, j, k). k) bs)"

definition row_ok :: "nat \<Rightarrow> (nat \<Rightarrow> nat) \<Rightarrow> nat \<Rightarrow> bool" where
  "row_ok blo m n \<longleftrightarrow> (\<forall>j. m j \<le> n \<and> (m j \<noteq> 0 \<longrightarrow> blo \<le> j \<and> m j \<le> j + 1 - blo))"

section \<open>Facts\<close>

text \<open>The loop read by its fuel, as the equations of a recursion on \<open>0\<close> and \<open>Suc\<close>.\<close>

lemma mb_loop_0 [simp]: "mb_loop 0 a b q acc = None"
  by (simp add: mb_loop.simps)

lemma mb_loop_Suc_Nil [simp]: "mb_loop (Suc n) a b [] acc = Some acc"
  by (simp add: mb_loop.simps)

text \<open>Every block \<open>find_longest_match\<close> returns lies inside its ranges.\<close>

lemma flm_row_in_range:
  "row_ok blo j2len (i - alo) \<Longrightarrow> alo \<le> i \<Longrightarrow> i < ahi \<Longrightarrow> row_ok blo new (Suc i - alo) \<Longrightarrow>
   in_range alo ahi blo bhi best \<Longrightarrow> flm_row j2len i blo bhi js new best = (new', best') \<Longrightarrow>
   row_ok blo new' (Suc i - alo) \<and> in_range alo ahi blo bhi best'"
proof (induction j2len i blo bhi js new best arbitrary: new' best' rule: flm_row.induct)
  case (1 j2len i blo bhi new best)
  then show ?case by simp
next
  case (2 j2len i blo bhi j js new bi bj bs)
  let ?k = "(if j = 0 then 0 else j2len (j - 1)) + 1"
  show ?case
  proof (cases "j < blo \<or> bhi \<le> j")
    case True
    then show ?thesis using 2 by (auto split: if_splits)
  next
    case False
    have kb: "?k \<le> Suc i - alo \<and> ?k \<le> j + 1 - blo"
      using "2.prems"(1,2) False unfolding row_ok_def
      by (cases "j = 0"; cases "j2len (j - 1) = 0") (auto dest: spec [of _ "j - 1"])
    have r: "row_ok blo (new(j := ?k)) (Suc i - alo)"
      using "2.prems"(4) kb False by (auto simp: row_ok_def)
    have b: "in_range alo ahi blo bhi (if bs < ?k then (i + 1 - ?k, j + 1 - ?k, ?k) else (bi, bj, bs))"
      using "2.prems"(2,3,5) kb False by (auto simp: in_range_def)
    have nb: "\<not> j < blo" "\<not> bhi \<le> j" using False by auto
    have eq: "flm_row j2len i blo bhi js (new(j := ?k))
        (if bs < ?k then (i + 1 - ?k, j + 1 - ?k, ?k) else (bi, bj, bs)) = (new', best')"
      using "2.prems"(6) nb by (simp only: flm_row.simps(2) Let_def if_False)
    show ?thesis using "2.IH"(2) [OF nb refl "2.prems"(1,2,3) r b eq] .
  qed
qed

lemma row_ok_zero [simp]: "row_ok blo (\<lambda>_. 0) n"
  by (simp add: row_ok_def)

lemma flm_rows_in_range:
  "row_ok blo j2len (i - alo) \<Longrightarrow> alo \<le> i \<Longrightarrow> in_range alo ahi blo bhi best \<Longrightarrow>
   in_range alo ahi blo bhi (flm_rows a b blo bhi [i..<ahi] j2len best)"
proof (induction "ahi - i" arbitrary: i j2len best)
  case 0
  then show ?case by simp
next
  case (Suc n)
  then have up: "[i..<ahi] = i # [Suc i..<ahi]" by (simp add: upt_conv_Cons)
  obtain new best' where fr: "flm_row j2len i blo bhi (b2j b (a ! i)) (\<lambda>_. 0) best = (new, best')"
    by (metis surj_pair)
  have "row_ok blo new (Suc i - alo) \<and> in_range alo ahi blo bhi best'"
    using flm_row_in_range [OF Suc.prems(1,2) _ row_ok_zero Suc.prems(3) fr] Suc.hyps(2) by simp
  then have "in_range alo ahi blo bhi (flm_rows a b blo bhi [Suc i..<ahi] new best')"
    using Suc.hyps Suc.prems(2) by (intro Suc.hyps(1)) auto
  then show ?case by (simp add: up fr)
qed

lemma extend_left_in_range:
  "in_range alo ahi blo bhi m \<Longrightarrow> in_range alo ahi blo bhi (extend_left P a b alo blo m)"
proof (induction P a b alo blo m rule: extend_left.induct)
  case (1 P a b alo blo i j k)
  show ?case
  proof (cases "alo < i \<and> blo < j \<and> P (b ! (j - 1)) \<and> a ! (i - 1) = b ! (j - 1)")
    case True
    have "in_range alo ahi blo bhi (i - 1, j - 1, k + 1)" using "1.prems" True by (auto simp: in_range_def)
    then show ?thesis using "1.IH" [OF True] True by (subst extend_left.simps) simp
  next
    case False
    show ?thesis
      using "1.prems" by (subst extend_left.simps, subst if_not_P [OF False], assumption)
  qed
qed

lemma extend_right_in_range:
  "in_range alo ahi blo bhi m \<Longrightarrow> in_range alo ahi blo bhi (extend_right P a b ahi bhi m)"
proof (induction P a b ahi bhi m rule: extend_right.induct)
  case (1 P a b ahi bhi i j k)
  show ?case
  proof (cases "i + k < ahi \<and> j + k < bhi \<and> P (b ! (j + k)) \<and> a ! (i + k) = b ! (j + k)")
    case True
    have "in_range alo ahi blo bhi (i, j, k + 1)" using "1.prems" True by (auto simp: in_range_def)
    then show ?thesis using "1.IH" [OF True] True by (subst extend_right.simps) simp
  next
    case False
    show ?thesis
      using "1.prems" by (subst extend_right.simps, subst if_not_P [OF False], assumption)
  qed
qed

lemma find_longest_match_in_range:
  "alo \<le> ahi \<Longrightarrow> blo \<le> bhi \<Longrightarrow> in_range alo ahi blo bhi (find_longest_match a b alo ahi blo bhi)"
  unfolding find_longest_match_def Let_def
  by (intro extend_left_in_range extend_right_in_range flm_rows_in_range) (auto simp: in_range_def)

lemma mb_loop_Cons:
  "mb_loop (Suc n) a b ((alo, ahi, blo, bhi) # q) acc =
     (case find_longest_match a b alo ahi blo bhi of
        (i, j, k) \<Rightarrow>
          if k = 0 then mb_loop n a b q acc
          else mb_loop n a b
                 ((if i + k < ahi \<and> j + k < bhi then [(i + k, ahi, j + k, bhi)] else [])
                  @ (if alo < i \<and> blo < j then [(alo, i, blo, j)] else []) @ q)
                 (acc @ [(i, j, k)]))"
  by (simp add: mb_loop.simps)

lemma mb_loop_Some:
  "list_all range_ok q \<Longrightarrow> mb_weight q < fuel \<Longrightarrow> \<exists>bs. mb_loop fuel a b q acc = Some bs"
proof (induction fuel arbitrary: q acc)
  case 0
  then show ?case by simp
next
  case (Suc n)
  show ?case
  proof (cases q)
    case Nil
    then show ?thesis by simp
  next
    case (Cons r q')
    obtain alo ahi blo bhi where r: "r = (alo, ahi, blo, bhi)" by (cases r) auto
    obtain i j k where f: "find_longest_match a b alo ahi blo bhi = (i, j, k)" by (metis surj_pair)
    have rq: "range_ok (alo, ahi, blo, bhi)" "list_all range_ok q'"
      using Suc.prems(1) Cons r by simp_all
    then have ok: "alo \<le> ahi" "blo \<le> bhi" "list_all range_ok q'" by (simp_all add: range_ok_def)
    have rng: "alo \<le> i" "i + k \<le> ahi" "blo \<le> j" "j + k \<le> bhi"
      using find_longest_match_in_range [OF ok(1,2), of a b] f by (auto simp: in_range_def)
    have w: "mb_weight q = 2 * (ahi - alo) + 1 + mb_weight q'"
      using Cons r by (simp add: mb_weight_def)
    show ?thesis
    proof (cases "k = 0")
      case True
      then show ?thesis using Suc.IH [OF ok(3)] Suc.prems(2) w Cons r f by (simp add: mb_loop_Cons)
    next
      case False
      let ?q = "(if i + k < ahi \<and> j + k < bhi then [(i + k, ahi, j + k, bhi)] else [])
                  @ (if alo < i \<and> blo < j then [(alo, i, blo, j)] else []) @ q'"
      have "list_all range_ok ?q" using ok(3) by (auto simp: range_ok_def)
      moreover have "mb_weight ?q < n"
        using Suc.prems(2) w rng False by (auto simp: mb_weight_def)
      ultimately show ?thesis using Suc.IH Cons r f False by (simp add: mb_loop_Cons)
    qed
  qed
qed

lemma mb_loop_size:
  "mb_loop fuel a b q acc = Some bs \<Longrightarrow> list_all range_ok q \<Longrightarrow>
   blocks_size bs \<le> blocks_size acc + a_width q \<and> blocks_size bs \<le> blocks_size acc + b_width q"
proof (induction fuel arbitrary: q acc)
  case 0
  then show ?case by simp
next
  case (Suc n)
  show ?case
  proof (cases q)
    case Nil
    then show ?thesis using Suc.prems by simp
  next
    case (Cons r q')
    obtain alo ahi blo bhi where r: "r = (alo, ahi, blo, bhi)" by (cases r) auto
    obtain i j k where f: "find_longest_match a b alo ahi blo bhi = (i, j, k)" by (metis surj_pair)
    have rq: "range_ok (alo, ahi, blo, bhi)" "list_all range_ok q'"
      using Suc.prems(2) Cons r by simp_all
    then have ok: "alo \<le> ahi" "blo \<le> bhi" "list_all range_ok q'" by (simp_all add: range_ok_def)
    have rng: "alo \<le> i" "i + k \<le> ahi" "blo \<le> j" "j + k \<le> bhi"
      using find_longest_match_in_range [OF ok(1,2), of a b] f by (auto simp: in_range_def)
    show ?thesis
    proof (cases "k = 0")
      case True
      then have "mb_loop n a b q' acc = Some bs" using Suc.prems(1) Cons r f by (simp add: mb_loop_Cons)
      then show ?thesis using Suc.IH [OF _ ok(3)] Cons r by (fastforce simp: a_width_def b_width_def)
    next
      case False
      let ?q = "(if i + k < ahi \<and> j + k < bhi then [(i + k, ahi, j + k, bhi)] else [])
                  @ (if alo < i \<and> blo < j then [(alo, i, blo, j)] else []) @ q'"
      have m: "mb_loop n a b ?q (acc @ [(i, j, k)]) = Some bs"
        using Suc.prems(1) Cons r f False by (simp add: mb_loop_Cons)
      have "list_all range_ok ?q" using ok(3) by (auto simp: range_ok_def)
      note ih = Suc.IH [OF m this]
      have "k + a_width ?q \<le> a_width q" "k + b_width ?q \<le> b_width q"
        using Cons r rng by (auto simp: a_width_def b_width_def)
      then show ?thesis using ih by (simp add: blocks_size_def)
    qed
  qed
qed

text \<open>\<open>get_matching_blocks\<close> finishes within its fuel, and its blocks fit in both
  sequences, so the ratio lies between 0 and 1.\<close>

lemma matching_blocks_Some: "\<exists>bs. matching_blocks a b = Some bs"
  unfolding matching_blocks_def by (rule mb_loop_Some) (simp_all add: range_ok_def mb_weight_def)

lemma matching_blocks_size:
  "matching_blocks a b = Some bs \<Longrightarrow> blocks_size bs \<le> length a \<and> blocks_size bs \<le> length b"
  unfolding matching_blocks_def
  by (drule mb_loop_size) (simp_all add: range_ok_def a_width_def b_width_def blocks_size_def)

lemma seq_ratio_bounds: "0 \<le> seq_ratio a b \<and> seq_ratio a b \<le> 1"
proof -
  obtain bs where m: "matching_blocks a b = Some bs" using matching_blocks_Some by blast
  have "2 * blocks_size bs \<le> length a + length b" using matching_blocks_size [OF m] by simp
  then have "2 * of_nat (blocks_size bs) \<le> (of_nat (length a + length b) :: rat)"
    by (metis of_nat_le_iff of_nat_mult of_nat_numeral)
  then show ?thesis
    by (simp add: seq_ratio_def m Let_def blocks_size_def [symmetric] divide_le_eq_1)
       (metis of_nat_add of_nat_0_le_iff order_le_less)
qed

end
