(* ===== verification/DevDocs.thy ===== *)
theory DevDocs
  imports Filesystem Matcher
begin

text \<open>
  The class \<open>DevDocsService\<close> of \<open>src/devdocs/devdocs_service.py\<close>: its fields, its
  constructor with \<open>ensure_cache_dirs\<close>, the sync \<open>index\<close> with
  \<open>fetch_doc_entries\<close>, and the three queries \<open>get_docs\<close>, \<open>get_doc_entries\<close> and
  \<open>get_doc_by_slug\<close>.  Every method that touches the outside world is a program over a
  \<open>world\<close>: the file tree, the answers of the remote server (\<open>requests.get\<close>), the log
  of requested URLs and a clock in milliseconds (\<open>time.sleep\<close>).  Logging calls are not
  modelled: they neither change the world nor raise.  The section on the cache as the
  design describes it gives the abstract state of the cache store (\<open>cache_view\<close>) and the
  abstract full sync (\<open>sync_spec\<close>) that \<open>index\<close> is proved to refine; a sample world and
  service are the concrete inputs of the witnesses.
\<close>

section \<open>The world and its primitives\<close>

record response =
  status :: nat
  resp_text :: string

record world =
  fs :: filesystem
  remote :: "string \<Rightarrow> response pyres"
  net_log :: "string list"
  clock :: nat

type_synonym 'a io = "(world, 'a) prog"

text \<open>\<open>requests.get(url)\<close>: the request is logged; the server answers or the connection
  fails.  \<open>r.json()\<close> decodes the body whatever the status code.\<close>

definition requests_get :: "string \<Rightarrow> response io" where
  "requests_get url = (\<lambda>w. (remote w url, w\<lparr>net_log := net_log w @ [url]\<rparr>))"

definition response_json :: "response \<Rightarrow> json pyres" where
  "response_json r = json_loads (resp_text r)"

definition time_sleep :: "nat \<Rightarrow> unit io" where
  "time_sleep ms = (\<lambda>w. (Inr (), w\<lparr>clock := clock w + ms\<rparr>))"

definition fs_op :: "(filesystem \<Rightarrow> filesystem pyres) \<Rightarrow> unit io" where
  "fs_op f = (\<lambda>w. case f (fs w) of Inl e \<Rightarrow> (Inl e, w) | Inr fs' \<Rightarrow> (Inr (), w\<lparr>fs := fs'\<rparr>))"

definition fs_query :: "(filesystem \<Rightarrow> 'a) \<Rightarrow> 'a io" where
  "fs_query f = (\<lambda>w. (Inr (f (fs w)), w))"

text \<open>\<open>with open(p, 'w') as f: json.dump(v, f)\<close> and
  \<open>with open(p, 'r') as f: data = json.load(f)\<close>.\<close>

definition json_dump_file :: "string \<Rightarrow> json \<Rightarrow> unit io" where
  "json_dump_file p v = fs_op (write_file p (json_dumps v))"

definition json_load_file :: "string \<Rightarrow> json io" where
  "json_load_file p =
     (\<lambda>w. (case read_file (fs w) p of Inl e \<Rightarrow> Inl e | Inr s \<Rightarrow> json_loads s, w))"

section \<open>The service object\<close>

text \<open>The value of \<open>docs_to_fetch\<close>: the empty list the constructor sets, or whatever
  value the preferences hand to \<open>set_docs_to_fetch\<close> (a list of slugs or a string).\<close>

datatype selection = SelList "string list" | SelStr string

record devdocs_service =
  cache_dir :: string
  index_file :: string
  entries_dir :: string
  docs_to_fetch :: selection

definition DEVDOCS_BASE_URL :: string where
  "DEVDOCS_BASE_URL = ''https://devdocs.io''"

definition DEVDOCS_INDEX_ALL_URL :: string where
  "DEVDOCS_INDEX_ALL_URL = ''https://devdocs.io/docs/docs.json''"

definition DEVDOCS_DOC_ENTRIES_URL :: string where
  "DEVDOCS_DOC_ENTRIES_URL = ''https://devdocs.io/docs/%slug%/index.json''"

definition get_base_url :: string where
  "get_base_url = DEVDOCS_BASE_URL"

definition get_index_cache_ttl :: nat where
  "get_index_cache_ttl = 86400"

text \<open>\<open>ensure_cache_dirs\<close>: three checks, each followed by the creation it guards.\<close>

definition ensure_cache_dirs :: "devdocs_service \<Rightarrow> unit io" where
  "ensure_cache_dirs svc =
     bindE (fs_query (\<lambda>t. os_path_exists t (cache_dir svc))) (\<lambda>e1.
     bindE (if e1 then ret () else fs_op (os_makedirs (cache_dir svc))) (\<lambda>_.
     bindE (fs_query (\<lambda>t. os_path_exists t (index_file svc))) (\<lambda>e2.
     bindE (if e2 then ret () else json_dump_file (index_file svc) (JList [])) (\<lambda>_.
     bindE (fs_query (\<lambda>t. os_path_isdir t (entries_dir svc))) (\<lambda>e3.
     if e3 then ret () else fs_op (os_mkdir (entries_dir svc)))))))"

text \<open>\<open>__init__(logger, cache_dir)\<close>.\<close>

definition new_service :: "string \<Rightarrow> devdocs_service" where
  "new_service d =
     \<lparr>cache_dir = d, index_file = path_join d ''index.json'',
      entries_dir = path_join d ''entries'', docs_to_fetch = SelList []\<rparr>"

definition DevDocsService_init :: "string \<Rightarrow> devdocs_service io" where
  "DevDocsService_init d = bindE (ensure_cache_dirs (new_service d)) (\<lambda>_. ret (new_service d))"

definition set_docs_to_fetch :: "devdocs_service \<Rightarrow> selection \<Rightarrow> devdocs_service" where
  "set_docs_to_fetch svc docs = svc\<lparr>docs_to_fetch := docs\<rparr>"

section \<open>Sync\<close>

text \<open>\<open>x['slug'] in self.docs_to_fetch\<close>: membership by equality in a list, substring
  test in a string (which wants a string on the left).\<close>

definition py_in_selection :: "json \<Rightarrow> selection \<Rightarrow> bool pyres" where
  "py_in_selection v sel =
     (case sel of
        SelList xs \<Rightarrow> Inr (v \<in> set (map JStr xs))
      | SelStr s \<Rightarrow> (case v of JStr t \<Rightarrow> Inr (py_str_in t s) | _ \<Rightarrow> Inl TypeError))"

text \<open>\<open>docs = [x for x in docs if x['slug'] in self.docs_to_fetch]\<close>.\<close>

definition select_docs :: "selection \<Rightarrow> json \<Rightarrow> json list pyres" where
  "select_docs sel docs =
     (case py_iter docs of
        Inl e \<Rightarrow> Inl e
      | Inr xs \<Rightarrow>
          py_filter (\<lambda>x. case py_getitem x ''slug'' of
                           Inl e \<Rightarrow> Inl e
                         | Inr s \<Rightarrow> py_in_selection s sel) xs)"

text \<open>\<open>fetch_doc_entries(doc)\<close>: the URL is built with \<open>str.replace\<close> and the file name
  with \<open>doc + '.json'\<close>, both of which want a string.\<close>

definition fetch_doc_entries :: "devdocs_service \<Rightarrow> json \<Rightarrow> unit io" where
  "fetch_doc_entries svc doc =
     (case doc of
        JStr slug \<Rightarrow>
          bindE (requests_get (py_replace ''%slug%'' slug DEVDOCS_DOC_ENTRIES_URL)) (\<lambda>r.
          bindE (lift (response_json r)) (\<lambda>entries.
          json_dump_file (path_join (entries_dir svc) (slug @ ''.json'')) entries))
      | _ \<Rightarrow> raise TypeError)"

text \<open>\<open>for doc in docs: self.fetch_doc_entries(doc['slug']); time.sleep(0.5)\<close>.\<close>

fun fetch_all :: "devdocs_service \<Rightarrow> json list \<Rightarrow> unit io" where
  "fetch_all svc [] = ret ()"
| "fetch_all svc (doc # docs) =
     bindE (lift (py_getitem doc ''slug'')) (\<lambda>slug.
     bindE (fetch_doc_entries svc slug) (\<lambda>_.
     bindE (time_sleep 500) (\<lambda>_.
     fetch_all svc docs)))"

text \<open>\<open>index()\<close>: fetch the list of all documentations, keep the selected ones, write
  them to the index file, then fetch the entries of each.\<close>

definition index :: "devdocs_service \<Rightarrow> unit io" where
  "index svc =
     bindE (requests_get DEVDOCS_INDEX_ALL_URL) (\<lambda>r.
     bindE (lift (response_json r)) (\<lambda>docs.
     bindE (lift (select_docs (docs_to_fetch svc) docs)) (\<lambda>docs.
     bindE (json_dump_file (index_file svc) (JList docs)) (\<lambda>_.
     fetch_all svc docs))))"

section \<open>Queries\<close>

text \<open>\<open>if query:\<close> on an optional string.\<close>

definition query_truthy :: "string option \<Rightarrow> bool" where
  "query_truthy q = (case q of Some s \<Rightarrow> s \<noteq> [] | None \<Rightarrow> False)"

text \<open>\<open>query.strip().lower() in x['name'].lower()\<close>.\<close>

definition name_matches :: "string \<Rightarrow> json \<Rightarrow> bool pyres" where
  "name_matches q x =
     (case py_getitem x ''name'' of
        Inl e \<Rightarrow> Inl e
      | Inr n \<Rightarrow> (case py_lower_json n of
                   Inl e \<Rightarrow> Inl e
                 | Inr lname \<Rightarrow> Inr (py_str_in (py_lower (py_strip q)) lname)))"

definition filter_by_name :: "string \<Rightarrow> json \<Rightarrow> json list pyres" where
  "filter_by_name q data =
     (case py_iter data of Inl e \<Rightarrow> Inl e | Inr xs \<Rightarrow> py_filter (name_matches q) xs)"

definition get_docs :: "devdocs_service \<Rightarrow> string option \<Rightarrow> json io" where
  "get_docs svc query =
     bindE (json_load_file (index_file svc)) (\<lambda>data.
     if query_truthy query then
       (case filter_by_name (the query) data of Inl e \<Rightarrow> raise e | Inr xs \<Rightarrow> ret (JList xs))
     else ret data)"

text \<open>The sort key \<open>difflib.SequenceMatcher(None, x['name'], query).ratio()\<close>; after
  the filter every name is a string.\<close>

definition entry_ratio :: "string \<Rightarrow> json \<Rightarrow> rat" where
  "entry_ratio q x = (case py_getitem x ''name'' of Inr (JStr n) \<Rightarrow> seq_ratio n q | _ \<Rightarrow> 0)"

text \<open>\<open>sorted(xs, key=key, reverse=True)\<close> as CPython computes it: the list is reversed,
  sorted stably in ascending order, and reversed back.\<close>

definition py_sorted_desc :: "('a \<Rightarrow> rat) \<Rightarrow> 'a list \<Rightarrow> 'a list" where
  "py_sorted_desc key xs = rev (sort_key key (rev xs))"

definition get_doc_entries :: "devdocs_service \<Rightarrow> string \<Rightarrow> string \<Rightarrow> json io" where
  "get_doc_entries svc lang_slug query =
     (let entries_file = path_join (entries_dir svc) (lang_slug @ ''.json'') in
      bindE (fs_query (\<lambda>t. os_path_exists t entries_file)) (\<lambda>ex.
      if \<not> ex then ret (JList [])
      else
        bindE (json_load_file entries_file) (\<lambda>data.
        bindE (lift (py_getitem data ''entries'')) (\<lambda>entries.
        if query \<noteq> [] then
          (case filter_by_name query entries of
             Inl e \<Rightarrow> raise e
           | Inr xs \<Rightarrow> ret (JList (py_sorted_desc (entry_ratio query) xs)))
        else ret entries))))"

text \<open>\<open>get_doc_by_slug\<close>: the first document whose slug equals the argument.\<close>

fun find_doc :: "string \<Rightarrow> json list \<Rightarrow> json option pyres" where
  "find_doc s [] = Inr None"
| "find_doc s (d # ds) =
     (case py_getitem d ''slug'' of
        Inl e \<Rightarrow> Inl e
      | Inr v \<Rightarrow> if v = JStr s then Inr (Some d) else find_doc s ds)"

definition get_doc_by_slug :: "devdocs_service \<Rightarrow> string \<Rightarrow> json option io" where
  "get_doc_by_slug svc doc_slug =
     bindE (json_load_file (index_file svc)) (\<lambda>data.
     lift (case py_iter data of Inl e \<Rightarrow> Inl e | Inr xs \<Rightarrow> find_doc doc_slug xs))"

text \<open>The name of a document or entry, when it has a string one.\<close>

definition doc_name :: "json \<Rightarrow> string option" where
  "doc_name d = (case py_getitem d ''name'' of Inr (JStr n) \<Rightarrow> Some n | _ \<Rightarrow> None)"

text \<open>The slug of a document, when it has a string one.\<close>

definition doc_slug :: "json \<Rightarrow> string option" where
  "doc_slug d = (case py_getitem d ''slug'' of Inr (JStr s) \<Rightarrow> Some s | _ \<Rightarrow> None)"

text \<open>The layout \<open>ensure_cache_dirs\<close> creates: the cache directory resolves to the
  directory node \<open>qc\<close>, which holds the directory \<open>entries\<close>, and the index file and the
  entries directory are the constructor's paths below it.\<close>

definition cache_layout :: "devdocs_service \<Rightarrow> filesystem \<Rightarrow> path \<Rightarrow> bool" where
  "cache_layout svc t qc \<longleftrightarrow>
     resolve t (cache_dir svc) = Inr qc \<and> t qc = Some Dir \<and> t (qc @ [''entries'']) = Some Dir \<and>
     index_file svc = path_join (cache_dir svc) ''index.json'' \<and>
     entries_dir svc = path_join (cache_dir svc) ''entries''"

text \<open>The cache is usable: the cache directory resolves to the layout above and the
  index file exists, so every query finds what it opens.\<close>

definition cache_ok :: "devdocs_service \<Rightarrow> filesystem \<Rightarrow> bool" where
  "cache_ok svc t \<longleftrightarrow>
     (case resolve t (cache_dir svc) of Inr qc \<Rightarrow> cache_layout svc t qc | Inl _ \<Rightarrow> False) \<and>
     os_path_exists t (index_file svc)"

section \<open>The cache as the design describes it\<close>

text \<open>The abstract state of the cache store of the design (section 3): the index as
  \<open>json.load\<close> reads it, and for each slug the entries payload of its file, absent when
  the file does not exist (slugs with a slash name no file of \<open>entries/\<close>).  The
  abstract full sync (section 4): the index becomes the selected list, the entries of each
  selected slug become what the server answers for it, the other entries stay.
  \<open>remote_entries\<close> is that answer: \<open>requests.get(url).json()\<close>.\<close>

definition remote_entries :: "world \<Rightarrow> string \<Rightarrow> json pyres" where
  "remote_entries w s =
     (case remote w (py_replace ''%slug%'' s DEVDOCS_DOC_ENTRIES_URL) of
        Inl e \<Rightarrow> Inl e | Inr r \<Rightarrow> json_loads (resp_text r))"

definition entries_path :: "devdocs_service \<Rightarrow> string \<Rightarrow> string" where
  "entries_path svc s = path_join (entries_dir svc) (s @ ''.json'')"

definition cache_view :: "devdocs_service \<Rightarrow> world \<Rightarrow> json pyres \<times> (string \<Rightarrow> json pyres option)" where
  "cache_view svc w =
     (fst (json_load_file (index_file svc) w),
      \<lambda>s. if CHR ''/'' \<in> set s \<or> \<not> os_path_exists (fs w) (entries_path svc s) then None
          else Some (fst (json_load_file (entries_path svc s) w)))"

definition sync_spec ::
  "json list \<Rightarrow> (string \<Rightarrow> json pyres) \<Rightarrow> json pyres \<times> (string \<Rightarrow> json pyres option)
   \<Rightarrow> json pyres \<times> (string \<Rightarrow> json pyres option)" where
  "sync_spec sel fetched v =
     (Inr (JList sel), \<lambda>s. if s \<in> set (map (\<lambda>d. the (doc_slug d)) sel) then Some (fetched s) else snd v s)"

section \<open>A sample world\<close>

text \<open>A remote server with two documentations, Go and Python, of which Go has one entry,
  an empty file tree, and a service that selects Go.  The witnesses below run the
  service on it.\<close>

definition example_docs :: json where
  "example_docs =
     JList [JDict [(''name'', JStr ''Go''), (''slug'', JStr ''go'')],
            JDict [(''name'', JStr ''Python''), (''slug'', JStr ''python'')]]"

definition example_entries :: json where
  "example_entries =
     JDict [(''entries'', JList [JDict [(''name'', JStr ''fmt.Println''), (''path'', JStr ''fmt#Println''),
                                        (''type'', JStr ''fmt'')]])]"

definition example_remote :: "string \<Rightarrow> response pyres" where
  "example_remote u =
     (if u = DEVDOCS_INDEX_ALL_URL then Inr \<lparr>status = 200, resp_text = json_dumps example_docs\<rparr>
      else if u = ''https://devdocs.io/docs/go/index.json''
      then Inr \<lparr>status = 200, resp_text = json_dumps example_entries\<rparr>
      else Inl ConnectionError)"

definition example_world :: world where
  "example_world = \<lparr>fs = [[] \<mapsto> Dir], remote = example_remote, net_log = [], clock = 0\<rparr>"

definition example_svc :: devdocs_service where
  "example_svc = set_docs_to_fetch (new_service ''/c'') (SelList [''go''])"

text \<open>The same server with the entries of Go unreachable; an entries file of PHP (the
  scenario of the design notes); documentations that have only a slug.\<close>

definition php_world :: world where
  "php_world = \<lparr>fs = [[] \<mapsto> Dir, [''c''] \<mapsto> Dir, [''c'', ''entries''] \<mapsto> Dir,
      [''c'', ''entries'', ''php.json''] \<mapsto> File (json_dumps (JDict [(''entries'', JList
         [JDict [(''name'', JStr ''array_filter''), (''type'', JStr ''Array''), (''path'', JStr ''function.array-filter'')],
          JDict [(''name'', JStr ''array_map''), (''type'', JStr ''Array''), (''path'', JStr ''function.array-map'')]])]))],
    remote = \<lambda>_. Inl ConnectionError, net_log = [], clock = 0\<rparr>"

definition go_down_remote :: "string \<Rightarrow> response pyres" where
  "go_down_remote u =
     (if u = ''https://devdocs.io/docs/go/index.json'' then Inl ConnectionError else example_remote u)"

definition slug_docs :: "string list \<Rightarrow> json list" where
  "slug_docs ss = map (\<lambda>s. JDict [(''slug'', JStr s)]) ss"

section \<open>Facts about the queries\<close>

lemma name_matches_str:
  "doc_name x = Some n \<Longrightarrow> name_matches q x = Inr (py_str_in (py_lower (py_strip q)) (py_lower n))"
  by (auto simp: doc_name_def name_matches_def split: sum.splits json.splits)

lemma filter_by_name_str:
  assumes "\<And>d. d \<in> set xs \<Longrightarrow> doc_name d \<noteq> None"
  shows "filter_by_name q (JList xs) =
           Inr (filter (\<lambda>d. py_str_in (py_lower (py_strip q)) (py_lower (the (doc_name d)))) xs)"
  unfolding filter_by_name_def py_iter_JList sum.case
  using assms by (intro py_filter_Inr_eq) (auto intro: name_matches_str)

lemma json_load_file_ok:
  "read_file (fs w) p = Inr s \<Longrightarrow> json_loads s = Inr v \<Longrightarrow> json_load_file p w = (Inr v, w)"
  by (simp add: json_load_file_def)

lemma json_dump_file_Inr:
  "json_dump_file p v w = (Inr (), w') \<longleftrightarrow>
     (\<exists>t. write_file p (json_dumps v) (fs w) = Inr t \<and> w' = w\<lparr>fs := t\<rparr>)"
  by (auto simp: json_dump_file_def fs_op_def split: sum.splits)

section \<open>Facts about the cache and the sync\<close>

lemma cache_layout_mono: "cache_layout svc t qc \<Longrightarrow> fs_le t t' \<Longrightarrow> cache_layout svc t' qc"
  using resolve_mono [of t t' "cache_dir svc" qc] by (auto simp: cache_layout_def fs_le_def)

lemma index_file_resolve:
  "cache_layout svc t qc \<Longrightarrow> resolve t (index_file svc) = Inr (qc @ [''index.json''])"
  by (auto simp: cache_layout_def intro: resolve_join_name)

lemma entries_file_resolve:
  assumes "cache_layout svc t qc" "CHR ''/'' \<notin> set s"
  shows "resolve t (path_join (entries_dir svc) (s @ ''.json'')) = Inr (qc @ [''entries'', s @ ''.json''])"
proof -
  have e: "resolve t (entries_dir svc) = Inr (qc @ [''entries''])"
    using assms(1) by (auto simp: cache_layout_def intro: resolve_join_name)
  have "s @ ''.json'' \<noteq> ''.'' \<and> s @ ''.json'' \<noteq> ''..''"
    by (cases s rule: rev_cases) auto
  then show ?thesis
    using resolve_join_name [OF e _, of "s @ ''.json''"] assms by (auto simp: cache_layout_def)
qed

lemma fetch_doc_entries_Inr:
  "fetch_doc_entries svc v w = (Inr (), w') \<longleftrightarrow>
   (\<exists>s r e t. v = JStr s \<and> remote w (py_replace ''%slug%'' s DEVDOCS_DOC_ENTRIES_URL) = Inr r \<and>
      json_loads (resp_text r) = Inr e \<and>
      write_file (path_join (entries_dir svc) (s @ ''.json'')) (json_dumps e) (fs w) = Inr t \<and>
      w' = w\<lparr>net_log := net_log w @ [py_replace ''%slug%'' s DEVDOCS_DOC_ENTRIES_URL], fs := t\<rparr>)"
  by (auto simp: fetch_doc_entries_def bindE_def requests_get_def lift_def response_json_def
                 json_dump_file_def fs_op_def raise_def
           split: json.splits sum.splits prod.splits)

lemma doc_slug_JStr: "py_getitem d ''slug'' = Inr (JStr s) \<Longrightarrow> doc_slug d = Some s"
  by (simp add: doc_slug_def)

lemma fetch_all_Cons_Inr:
  "fetch_all svc (d # ds) w = (Inr (), w') \<longleftrightarrow>
   (\<exists>v w1. py_getitem d ''slug'' = Inr v \<and> fetch_doc_entries svc v w = (Inr (), w1) \<and>
      fetch_all svc ds (w1\<lparr>clock := clock w1 + 500\<rparr>) = (Inr (), w'))"
  by (auto simp: bindE_def lift_def time_sleep_def split: sum.splits prod.splits)

lemma write_entries_node:
  assumes "cache_layout svc t qc" "CHR ''/'' \<notin> set s"
    and "write_file (path_join (entries_dir svc) (s @ ''.json'')) c t = Inr t'"
  shows "t' = t(qc @ [''entries'', s @ ''.json''] \<mapsto> File c)"
  using assms(3) entries_file_resolve [OF assms(1,2)] by (auto simp: write_file_Inr)

lemma fetch_all_Inr:
  assumes "fetch_all svc docs w = (Inr (), w')" "cache_layout svc (fs w) qc"
    and "\<forall>d\<in>set docs. \<forall>s. doc_slug d = Some s \<longrightarrow> CHR ''/'' \<notin> set s"
  shows "(\<forall>d\<in>set docs. doc_slug d \<noteq> None) \<and> fs_le (fs w) (fs w') \<and>
         (\<forall>q. fs w' q \<noteq> fs w q \<longrightarrow> (\<exists>d\<in>set docs. q = qc @ [''entries'', the (doc_slug d) @ ''.json'']))"
  using assms
proof (induction docs arbitrary: w)
  case Nil
  then show ?case by (simp add: ret_def)
next
  case (Cons d ds)
  obtain v w1 where g: "py_getitem d ''slug'' = Inr v" and f: "fetch_doc_entries svc v w = (Inr (), w1)"
    and r: "fetch_all svc ds (w1\<lparr>clock := clock w1 + 500\<rparr>) = (Inr (), w')"
    using fetch_all_Cons_Inr [THEN iffD1, OF Cons.prems(1)] by blast
  obtain s rsp e t where v: "v = JStr s"
    and w1: "w1 = w\<lparr>net_log := net_log w @ [py_replace ''%slug%'' s DEVDOCS_DOC_ENTRIES_URL], fs := t\<rparr>"
    and wr: "write_file (path_join (entries_dir svc) (s @ ''.json'')) (json_dumps e) (fs w) = Inr t"
    using f by (auto simp: fetch_doc_entries_Inr)
  have sl: "doc_slug d = Some s" using g v by (simp add: doc_slug_JStr)
  have ns: "CHR ''/'' \<notin> set s" using Cons.prems(3) sl by simp
  have t: "t = (fs w)(qc @ [''entries'', s @ ''.json''] \<mapsto> File (json_dumps e))"
    using write_entries_node [OF Cons.prems(2) ns wr] .
  have le1: "fs_le (fs w) t" using wr by (rule fs_le_write_file)
  have lay: "cache_layout svc (fs (w1\<lparr>clock := clock w1 + 500\<rparr>)) qc"
    using cache_layout_mono [OF Cons.prems(2) le1] w1 by simp
  have IH: "(\<forall>d\<in>set ds. doc_slug d \<noteq> None) \<and> fs_le t (fs w') \<and>
         (\<forall>q. fs w' q \<noteq> t q \<longrightarrow> (\<exists>d\<in>set ds. q = qc @ [''entries'', the (doc_slug d) @ ''.json'']))"
    using Cons.IH [OF r lay] Cons.prems(3) w1 by simp
  have "fs_le (fs w) (fs w')" using le1 IH fs_le_trans by blast
  moreover have "\<forall>q. fs w' q \<noteq> fs w q \<longrightarrow>
                   (\<exists>d\<in>set (d # ds). q = qc @ [''entries'', the (doc_slug d) @ ''.json''])"
    using IH t sl by (auto split: if_splits)
  ultimately show ?case using IH sl by simp
qed

text \<open>The requests and the sleeps of the loop: one request per document, in order, each
  followed by half a second.\<close>

lemma fetch_all_log:
  assumes "fetch_all svc docs w = (Inr (), w')"
  shows "net_log w' = net_log w @
           map (\<lambda>d. py_replace ''%slug%'' (the (doc_slug d)) DEVDOCS_DOC_ENTRIES_URL) docs \<and>
         clock w' = clock w + 500 * length docs"
  using assms
proof (induction docs arbitrary: w)
  case Nil
  then show ?case by (simp add: ret_def)
next
  case (Cons d ds)
  obtain v w1 where g: "py_getitem d ''slug'' = Inr v" and f: "fetch_doc_entries svc v w = (Inr (), w1)"
    and r: "fetch_all svc ds (w1\<lparr>clock := clock w1 + 500\<rparr>) = (Inr (), w')"
    using fetch_all_Cons_Inr [THEN iffD1, OF Cons.prems] by blast
  obtain s where v: "v = JStr s"
    and w1: "net_log w1 = net_log w @ [py_replace ''%slug%'' s DEVDOCS_DOC_ENTRIES_URL]"
    and c1: "clock w1 = clock w"
    using f by (auto simp: fetch_doc_entries_Inr)
  have "doc_slug d = Some s" using g v by (simp add: doc_slug_JStr)
  then show ?case using Cons.IH [OF r] w1 c1 by simp
qed

lemma py_iter_wf: "json_wf v \<Longrightarrow> py_iter v = Inr xs \<Longrightarrow> list_all json_wf xs"
  by (cases v) (auto simp: py_iter_def list_all_iff)

lemma select_docs_sub:
  "select_docs sel docs = Inr ys \<Longrightarrow> \<exists>xs. py_iter docs = Inr xs \<and> set ys \<subseteq> set xs"
  by (auto simp: select_docs_def split: sum.splits dest!: py_filter_Inr_sub)

lemma select_docs_wf:
  "json_wf docs \<Longrightarrow> select_docs sel docs = Inr ys \<Longrightarrow> json_wf (JList ys)"
  using select_docs_sub [of sel docs ys] py_iter_wf [of docs] by (fastforce simp: list_all_iff)

lemma index_Inr:
  assumes "index svc w = (Inr (), w')"
    and "remote w DEVDOCS_INDEX_ALL_URL = Inr rsp" "json_loads (resp_text rsp) = Inr docs"
    and "select_docs (docs_to_fetch svc) docs = Inr sel"
  shows "\<exists>t. write_file (index_file svc) (json_dumps (JList sel)) (fs w) = Inr t \<and>
             fetch_all svc sel (w\<lparr>net_log := net_log w @ [DEVDOCS_INDEX_ALL_URL], fs := t\<rparr>) = (Inr (), w')"
  using assms
  by (auto simp: index_def bindE_def requests_get_def lift_def response_json_def json_dump_file_def
                 fs_op_def split: sum.splits prod.splits)

lemma write_index_file:
  assumes "cache_layout svc t qc" "t (qc @ [''index.json'']) \<noteq> Some Dir"
  shows "write_file (index_file svc) c t = Inr (t(qc @ [''index.json''] \<mapsto> File c))"
  using assms index_file_resolve [OF assms(1)] by (simp add: write_file_Inr cache_layout_def)

lemma doc_slug_Some: "doc_slug d = Some t \<Longrightarrow> py_getitem d ''slug'' = Inr (JStr t)"
  by (auto simp: doc_slug_def split: sum.splits json.splits)

lemma py_in_selection_str:
  "py_in_selection (JStr t) (SelStr p) = Inr (py_str_in t p)"
  by (simp add: py_in_selection_def)

lemma select_docs_str:
  assumes "\<And>d. d \<in> set xs \<Longrightarrow> doc_slug d \<noteq> None"
  shows "select_docs (SelStr p) (JList xs) = Inr (filter (\<lambda>d. py_str_in (the (doc_slug d)) p) xs)"
  unfolding select_docs_def py_iter_JList sum.case
  using assms by (intro py_filter_Inr_eq) (force dest: doc_slug_Some simp: py_in_selection_str)

text \<open>What the sync leaves on disk: the entries file of every selected slug holds the
  server's answer for it, and the index file the selected list.\<close>

lemma remote_entries_cong: "remote w' = remote w \<Longrightarrow> remote_entries w' = remote_entries w"
  by (simp add: remote_entries_def fun_eq_iff)

lemma fetch_all_content:
  assumes "fetch_all svc docs w = (Inr (), w')" "cache_layout svc (fs w) qc"
    and "\<forall>d\<in>set docs. \<forall>s. doc_slug d = Some s \<longrightarrow> CHR ''/'' \<notin> set s"
  shows "remote w' = remote w \<and>
         (\<forall>d\<in>set docs. \<exists>e. remote_entries w (the (doc_slug d)) = Inr e \<and>
            fs w' (qc @ [''entries'', the (doc_slug d) @ ''.json'']) = Some (File (json_dumps e)))"
  using assms
proof (induction docs arbitrary: w)
  case Nil
  then show ?case by (simp add: ret_def)
next
  case (Cons d ds)
  obtain v w1 where g: "py_getitem d ''slug'' = Inr v" and f: "fetch_doc_entries svc v w = (Inr (), w1)"
    and r: "fetch_all svc ds (w1\<lparr>clock := clock w1 + 500\<rparr>) = (Inr (), w')"
    using fetch_all_Cons_Inr [THEN iffD1, OF Cons.prems(1)] by blast
  obtain s rsp e t where v: "v = JStr s"
    and rs: "remote w (py_replace ''%slug%'' s DEVDOCS_DOC_ENTRIES_URL) = Inr rsp"
    and l: "json_loads (resp_text rsp) = Inr e"
    and w1: "w1 = w\<lparr>net_log := net_log w @ [py_replace ''%slug%'' s DEVDOCS_DOC_ENTRIES_URL], fs := t\<rparr>"
    and wr: "write_file (path_join (entries_dir svc) (s @ ''.json'')) (json_dumps e) (fs w) = Inr t"
    using f by (auto simp: fetch_doc_entries_Inr)
  have re: "remote_entries w s = Inr e" using rs l by (simp add: remote_entries_def)
  have sl: "doc_slug d = Some s" using g v by (simp add: doc_slug_JStr)
  have ns: "CHR ''/'' \<notin> set s" using Cons.prems(3) sl by simp
  have t: "t = (fs w)(qc @ [''entries'', s @ ''.json''] \<mapsto> File (json_dumps e))"
    using write_entries_node [OF Cons.prems(2) ns wr] .
  have lay: "cache_layout svc (fs (w1\<lparr>clock := clock w1 + 500\<rparr>)) qc"
    using cache_layout_mono [OF Cons.prems(2) fs_le_write_file [OF wr]] w1 by simp
  have pl: "\<forall>d\<in>set ds. \<forall>s. doc_slug d = Some s \<longrightarrow> CHR ''/'' \<notin> set s" using Cons.prems(3) by simp
  have rw: "remote_entries (w1\<lparr>clock := clock w1 + 500\<rparr>) = remote_entries w"
    using w1 by (intro remote_entries_cong) simp
  have IH: "remote w' = remote w \<and>
         (\<forall>d\<in>set ds. \<exists>e. remote_entries w (the (doc_slug d)) = Inr e \<and>
            fs w' (qc @ [''entries'', the (doc_slug d) @ ''.json'']) = Some (File (json_dumps e)))"
    using Cons.IH [OF r lay pl] w1 rw by simp
  have fr: "\<forall>q. fs w' q \<noteq> t q \<longrightarrow> (\<exists>d\<in>set ds. q = qc @ [''entries'', the (doc_slug d) @ ''.json''])"
    using fetch_all_Inr [OF r lay pl] w1 by simp
  have "fs w' (qc @ [''entries'', s @ ''.json'']) = Some (File (json_dumps e))"
  proof (cases "fs w' (qc @ [''entries'', s @ ''.json'']) = t (qc @ [''entries'', s @ ''.json''])")
    case True
    then show ?thesis using t by simp
  next
    case False
    then obtain d' where d': "d' \<in> set ds" "the (doc_slug d') = s" using fr by fastforce
    then show ?thesis using IH re by fastforce
  qed
  then show ?case using IH re sl by simp
qed

lemma index_Inr_fs:
  assumes lay: "cache_layout svc (fs w) qc"
    and ok: "index svc w = (Inr (), w')"
    and r: "remote w DEVDOCS_INDEX_ALL_URL = Inr rsp" "json_loads (resp_text rsp) = Inr docs"
    and sel: "select_docs (docs_to_fetch svc) docs = Inr sel"
    and plain: "\<forall>d\<in>set sel. \<forall>s. doc_slug d = Some s \<longrightarrow> CHR ''/'' \<notin> set s"
  shows "fs w' (qc @ [''index.json'']) = Some (File (json_dumps (JList sel))) \<and> fs_le (fs w) (fs w') \<and>
         (\<forall>q. fs w' q \<noteq> fs w q \<longrightarrow>
            q = qc @ [''index.json''] \<or> (\<exists>d\<in>set sel. q = qc @ [''entries'', the (doc_slug d) @ ''.json''])) \<and>
         (\<forall>d\<in>set sel. doc_slug d \<noteq> None \<and> (\<exists>e. remote_entries w (the (doc_slug d)) = Inr e \<and>
            fs w' (qc @ [''entries'', the (doc_slug d) @ ''.json'']) = Some (File (json_dumps e))))"
proof -
  obtain t where wr: "write_file (index_file svc) (json_dumps (JList sel)) (fs w) = Inr t"
    and fa: "fetch_all svc sel (w\<lparr>net_log := net_log w @ [DEVDOCS_INDEX_ALL_URL], fs := t\<rparr>) = (Inr (), w')"
    using index_Inr [OF ok r sel] by blast
  let ?qi = "qc @ [''index.json'']"
  have t: "t = (fs w)(?qi \<mapsto> File (json_dumps (JList sel)))"
    using wr index_file_resolve [OF lay] by (auto simp: write_file_Inr)
  have lay1: "cache_layout svc t qc" using cache_layout_mono [OF lay fs_le_write_file [OF wr]] .
  have F: "(\<forall>d\<in>set sel. doc_slug d \<noteq> None) \<and> fs_le t (fs w') \<and>
         (\<forall>q. fs w' q \<noteq> t q \<longrightarrow> (\<exists>d\<in>set sel. q = qc @ [''entries'', the (doc_slug d) @ ''.json'']))"
    using fetch_all_Inr [OF fa _ plain] lay1 by simp
  have C: "\<forall>d\<in>set sel. \<exists>e. remote_entries w (the (doc_slug d)) = Inr e \<and>
            fs w' (qc @ [''entries'', the (doc_slug d) @ ''.json'']) = Some (File (json_dumps e))"
    using fetch_all_content [OF fa _ plain] lay1 remote_entries_cong [of "w\<lparr>net_log := net_log w @ [DEVDOCS_INDEX_ALL_URL], fs := t\<rparr>" w]
    by simp
  have "fs w' ?qi = t ?qi"
  proof (rule ccontr)
    assume "fs w' ?qi \<noteq> t ?qi"
    then obtain d where "?qi = qc @ [''entries'', the (doc_slug d) @ ''.json'']" using F by blast
    then show False by simp
  qed
  then have qi: "fs w' ?qi = Some (File (json_dumps (JList sel)))" using t by simp
  have le: "fs_le (fs w) (fs w')" using fs_le_write_file [OF wr] F fs_le_trans by blast
  have "\<forall>q. fs w' q \<noteq> fs w q \<longrightarrow>
      q = ?qi \<or> (\<exists>d\<in>set sel. q = qc @ [''entries'', the (doc_slug d) @ ''.json''])"
  proof (intro allI impI)
    fix q
    assume ch: "fs w' q \<noteq> fs w q"
    show "q = ?qi \<or> (\<exists>d\<in>set sel. q = qc @ [''entries'', the (doc_slug d) @ ''.json''])"
    proof (cases "q = ?qi")
      case False
      then have "fs w' q \<noteq> t q" using ch t by simp
      then show ?thesis using F by blast
    qed simp
  qed
  then show ?thesis using qi le F C by blast
qed

lemma index_Inr_get_docs:
  assumes "cache_layout svc (fs w) qc" "index svc w = (Inr (), w')"
    and r: "remote w DEVDOCS_INDEX_ALL_URL = Inr rsp" "json_loads (resp_text rsp) = Inr docs"
    and sel: "select_docs (docs_to_fetch svc) docs = Inr sel"
    and "\<forall>d\<in>set sel. \<forall>s. doc_slug d = Some s \<longrightarrow> CHR ''/'' \<notin> set s"
  shows "get_docs svc None w' = (Inr (JList sel), w')"
proof -
  note F = index_Inr_fs [OF assms]
  have lay': "cache_layout svc (fs w') qc" using cache_layout_mono [OF assms(1)] F by blast
  have "read_file (fs w') (index_file svc) = Inr (json_dumps (JList sel))"
    using F index_file_resolve [OF lay'] by (simp add: read_file_def del: json_dumps.simps)
  then have "json_load_file (index_file svc) w' = (Inr (JList sel), w')"
    using json_load_file_ok json_roundtrip [OF select_docs_wf [OF json_loads_wf [OF r(2)] sel]] by blast
  then show ?thesis by (simp add: get_docs_def query_truthy_def bindE_def ret_def)
qed

lemma cache_layout_set_docs [simp]:
  "cache_layout (set_docs_to_fetch svc d) t qc = cache_layout svc t qc"
  by (simp add: cache_layout_def set_docs_to_fetch_def)

lemma read_same_node:
  "resolve t p = Inr q \<Longrightarrow> resolve t' p = Inr q \<Longrightarrow> t' q = t q \<Longrightarrow>
   read_file t' p = read_file t p \<and> os_path_exists t' p = os_path_exists t p"
  by (simp add: read_file_def os_path_exists_def)

lemma remote_entries_wf: "remote_entries w s = Inr e \<Longrightarrow> json_wf e"
  by (auto simp: remote_entries_def split: sum.splits intro: json_loads_wf)

lemma view_entry_slash: "CHR ''/'' \<in> set s \<Longrightarrow> snd (cache_view svc w) s = None"
  by (simp add: cache_view_def)

lemma view_index:
  assumes "cache_layout svc (fs w) qc" "fs w (qc @ [''index.json'']) = Some (File (json_dumps v))" "json_wf v"
  shows "fst (cache_view svc w) = Inr v"
  using assms(2) index_file_resolve [OF assms(1)] json_roundtrip [OF assms(3)]
  by (simp add: cache_view_def json_load_file_def read_file_def del: json_dumps.simps)

lemma view_entry_selected:
  assumes "cache_layout svc (fs w) qc" "CHR ''/'' \<notin> set s" "e' = Inr e"
    and "fs w (qc @ [''entries'', s @ ''.json'']) = Some (File (json_dumps e))" "json_wf e"
  shows "snd (cache_view svc w) s = Some e'"
  using assms entries_file_resolve [OF assms(1,2)] json_roundtrip [OF assms(5)]
  by (simp add: cache_view_def entries_path_def json_load_file_def read_file_def os_path_exists_def
           del: json_dumps.simps)

lemma view_entry_frame:
  assumes "cache_layout svc (fs w) qc" "cache_layout svc (fs w') qc" "CHR ''/'' \<notin> set s"
    and "fs w' (qc @ [''entries'', s @ ''.json'']) = fs w (qc @ [''entries'', s @ ''.json''])"
  shows "snd (cache_view svc w') s = snd (cache_view svc w) s"
proof -
  have "read_file (fs w') (entries_path svc s) = read_file (fs w) (entries_path svc s) \<and>
        os_path_exists (fs w') (entries_path svc s) = os_path_exists (fs w) (entries_path svc s)"
    using read_same_node [OF entries_file_resolve [OF assms(1,3)] entries_file_resolve [OF assms(2,3)] assms(4)]
    by (simp add: entries_path_def)
  then show ?thesis using assms(3) by (simp add: cache_view_def json_load_file_def)
qed

lemma os_makedirs_Nil: "os_makedirs [] t = Inl FileNotFoundError"
  by (simp add: os_makedirs.simps makedirs_split_def path_split_def os_mkdir_def resolve_def)

lemma fs_query_apply [py_simps]: "fs_query f w = (Inr (f (fs w)), w)"
  by (simp add: fs_query_def)

lemma fs_op_Inr: "fs_op f w = (Inr (), w') \<longleftrightarrow> (\<exists>t. f (fs w) = Inr t \<and> w' = w\<lparr>fs := t\<rparr>)"
  by (auto simp: fs_op_def split: sum.splits)

lemma ensure_cache_dirs_Inr:
  assumes "ensure_cache_dirs svc w = (Inr (), w')"
  shows "\<exists>t1 t2 t3.
     (if os_path_exists (fs w) (cache_dir svc) then t1 = fs w else os_makedirs (cache_dir svc) (fs w) = Inr t1) \<and>
     (if os_path_exists t1 (index_file svc) then t2 = t1
      else write_file (index_file svc) (json_dumps (JList [])) t1 = Inr t2) \<and>
     (if os_path_isdir t2 (entries_dir svc) then t3 = t2 else os_mkdir (entries_dir svc) t2 = Inr t3) \<and>
     w' = w\<lparr>fs := t3\<rparr>"
  using assms
  by (auto simp: ensure_cache_dirs_def bindE_def fs_query_apply ret_def fs_op_def json_dump_file_def
           split: if_splits sum.splits prod.splits simp del: json_dumps.simps)

lemma new_service_paths [simp]:
  "cache_dir (new_service d) = d" "index_file (new_service d) = path_join d ''index.json''"
  "entries_dir (new_service d) = path_join d ''entries''"
  by (simp_all add: new_service_def)

lemma ensure_cache_dirs_post:
  assumes wf: "fs_wf (fs w)" and ok: "ensure_cache_dirs (new_service d) w = (Inr (), w')"
  shows "\<exists>qc. cache_layout (new_service d) (fs w') qc \<and> fs_wf (fs w') \<and>
           os_path_exists (fs w') (path_join d ''index.json'') \<and> fs_le (fs w) (fs w')"
proof -
  obtain t1 t2 t3 where
    s1: "if os_path_exists (fs w) d then t1 = fs w else os_makedirs d (fs w) = Inr t1" and
    s2: "if os_path_exists t1 (path_join d ''index.json'') then t2 = t1
         else write_file (path_join d ''index.json'') (json_dumps (JList [])) t1 = Inr t2" and
    s3: "if os_path_isdir t2 (path_join d ''entries'') then t3 = t2
         else os_mkdir (path_join d ''entries'') t2 = Inr t3" and
    w': "w' = w\<lparr>fs := t3\<rparr>"
    using ensure_cache_dirs_Inr [OF ok, unfolded new_service_paths] by blast
  have d: "d \<noteq> []"
    using s1 by (auto simp: os_path_exists_def resolve_def os_makedirs_Nil split: if_splits)
  have le1: "fs_le (fs w) t1" and wf1: "fs_wf t1"
    using s1 wf by (auto split: if_splits intro: fs_le_os_makedirs fs_wf_os_makedirs)
  have le2: "fs_le t1 t2" and wf2: "fs_wf t2" and ex2: "os_path_exists t2 (path_join d ''index.json'')"
    using s2 wf1 by (auto split: if_splits intro: fs_le_write_file fs_wf_write_file write_file_exists)
  have le3: "fs_le t2 t3" and wf3: "fs_wf t3" and isd: "os_path_isdir t3 (path_join d ''entries'')"
    using s3 wf2 by (auto split: if_splits intro: fs_le_os_mkdir fs_wf_os_mkdir os_mkdir_isdir)
  obtain qi where "resolve t2 (path_join d ''index.json'') = Inr qi"
    using ex2 by (auto simp: os_path_exists_iff)
  moreover have "\<not> py_startswith ''index.json'' ''/''" by (simp add: py_startswith_def)
  ultimately have "os_path_isdir t2 d"
    using resolve_join_isdir [OF wf2 d] by blast
  then have "os_path_isdir t3 d" using le3 by (rule os_path_isdir_mono [rotated])
  then obtain qc where qc: "resolve t3 d = Inr qc" "t3 qc = Some Dir"
    by (auto simp: os_path_isdir_iff)
  obtain qe where qe: "resolve t3 (path_join d ''entries'') = Inr qe" "t3 qe = Some Dir"
    using isd by (auto simp: os_path_isdir_iff)
  have "qe = qc @ [''entries'']"
    using resolve_join_name [OF qc, of "''entries''"] qe(1) by simp
  then have "cache_layout (new_service d) t3 qc"
    using qc qe by (simp add: cache_layout_def)
  moreover have "fs_le (fs w) t3" using le1 le2 le3 fs_le_trans by blast
  moreover have "os_path_exists t3 (path_join d ''index.json'')"
    using ex2 le3 by (rule os_path_exists_mono [rotated])
  ultimately show ?thesis using wf3 w' by auto
qed

lemma ensure_cache_dirs_noop:
  assumes "cache_layout (new_service d) (fs w) qc" "os_path_exists (fs w) (path_join d ''index.json'')"
  shows "ensure_cache_dirs (new_service d) w = (Inr (), w)"
proof -
  have "os_path_isdir (fs w) d" "os_path_isdir (fs w) (path_join d ''entries'')"
    using assms(1) resolve_join_name [of "fs w" d qc "''entries''"]
    by (auto simp: cache_layout_def os_path_isdir_iff)
  then have "os_path_exists (fs w) d"
    by (auto simp: os_path_isdir_iff os_path_exists_iff)
  then show ?thesis
    using assms(2) \<open>os_path_isdir (fs w) (path_join d ''entries'')\<close>
    by (simp add: ensure_cache_dirs_def bindE_def fs_query_def ret_def)
qed

section \<open>Invariants kept by the operations\<close>

text \<open>The queries only read; every other operation changes the file tree only by writes
  and the clock only by sleeping.\<close>

lemma preserves_fs_query [preserves_intro]: "preserves I (fs_query f)"
  by (rule preserves_unchanged) (simp add: fs_query_def)

lemma preserves_json_load_file [preserves_intro]: "preserves I (json_load_file p)"
  by (rule preserves_unchanged) (simp add: json_load_file_def)

lemma preserves_requests_get [preserves_intro]: "preserves (\<lambda>w. P (fs w) (clock w)) (requests_get u)"
  by (simp add: preserves_def requests_get_def)

lemma preserves_time_sleep [preserves_intro]:
  "(\<And>t c. P t c \<Longrightarrow> P t (c + ms)) \<Longrightarrow> preserves (\<lambda>w. P (fs w) (clock w)) (time_sleep ms)"
  by (simp add: preserves_def time_sleep_def)

lemma preserves_fs_op [preserves_intro]:
  "(\<And>t t' c. f t = Inr t' \<Longrightarrow> P t c \<Longrightarrow> P t' c) \<Longrightarrow> preserves (\<lambda>w. P (fs w) (clock w)) (fs_op f)"
  by (auto simp: preserves_def fs_op_def split: sum.splits)

lemma get_docs_preserves: "preserves I (get_docs svc q)"
  unfolding get_docs_def by (intro preserves_intro)

lemma get_doc_entries_preserves: "preserves I (get_doc_entries svc s q)"
  unfolding get_doc_entries_def by (intro preserves_intro)

lemma get_doc_by_slug_preserves: "preserves I (get_doc_by_slug svc s)"
  unfolding get_doc_by_slug_def by (intro preserves_intro)

lemma preserves_all_unchanged: "(\<And>I. preserves I m) \<Longrightarrow> m s = (r, s') \<Longrightarrow> s' = s"
  using preservesD [of "\<lambda>x. x = s" m s r s'] by blast

text \<open>An invariant of the file tree and the clock that writes keep and the passing of
  time keeps is kept by the sync.\<close>

lemma fetch_all_preserves:
  assumes "\<And>t c ms. P t c \<Longrightarrow> P t (c + ms)"
    and "\<And>p x t t' c. write_file p x t = Inr t' \<Longrightarrow> P t c \<Longrightarrow> P t' c"
  shows "preserves (\<lambda>w. P (fs w) (clock w)) (fetch_all svc docs)"
proof (induction docs)
  case Nil
  then show ?case by (simp add: preserves_intro)
next
  case (Cons d ds)
  have f: "preserves (\<lambda>w. P (fs w) (clock w)) (fetch_doc_entries svc v)" for v
    unfolding fetch_doc_entries_def json_dump_file_def
    by (cases v) (simp_all add: preserves_intro assms)
  show ?case
    by (simp add: preserves_intro f Cons.IH assms)
qed

lemma index_preserves:
  assumes "\<And>t c ms. P t c \<Longrightarrow> P t (c + ms)"
    and "\<And>p x t t' c. write_file p x t = Inr t' \<Longrightarrow> P t c \<Longrightarrow> P t' c"
  shows "preserves (\<lambda>w. P (fs w) (clock w)) (index svc)"
  unfolding index_def json_dump_file_def
  by (simp add: preserves_intro fetch_all_preserves assms)

lemma cache_ok_iff:
  "cache_ok svc t \<longleftrightarrow> (\<exists>qc. cache_layout svc t qc) \<and> os_path_exists t (index_file svc)"
  by (auto simp: cache_ok_def cache_layout_def split: sum.splits)

lemma cache_ok_mono: "cache_ok svc t \<Longrightarrow> fs_le t t' \<Longrightarrow> cache_ok svc t'"
  unfolding cache_ok_iff by (blast intro: cache_layout_mono os_path_exists_mono)

lemma cache_ok_set_docs [simp]: "cache_ok (set_docs_to_fetch svc d) t = cache_ok svc t"
  unfolding cache_ok_iff set_docs_to_fetch_def cache_layout_def by simp

lemma cache_ok_init:
  "fs_wf (fs w) \<Longrightarrow> ensure_cache_dirs (new_service d) w = (Inr (), w') \<Longrightarrow> cache_ok (new_service d) (fs w')"
  using ensure_cache_dirs_post [of w d w'] by (auto simp: cache_ok_iff)

lemma index_keeps_cache_ok: "index svc w = (r, w') \<Longrightarrow> cache_ok svc (fs w) \<Longrightarrow> cache_ok svc (fs w')"
  using preservesD [OF index_preserves [of "\<lambda>t c. cache_ok svc t"]]
  by (blast intro: cache_ok_mono fs_le_write_file)

section \<open>Properties of the service\<close>

text \<open>C1: The cache round trip: a JSON value written to a file with \<open>json.dump\<close> (as
  \<open>index\<close> and \<open>fetch_doc_entries\<close> do) is read back unchanged by \<open>json.load\<close> (as the
  three queries do), for every value a Python program holds (dicts with distinct keys).\<close>

theorem cache_roundtrip:
  "json_wf v \<Longrightarrow> json_dump_file p v w = (Inr (), w') \<Longrightarrow> json_load_file p w' = (Inr v, w')"
  by (auto simp: json_dump_file_Inr intro!: json_load_file_ok json_roundtrip
           dest: write_file_read_back)

theorem cache_roundtrip_witness:
  "json_wf (JList [JStr ''go'']) \<and>
   json_dump_file ''/i.json'' (JList [JStr ''go''])
     \<lparr>fs = [[] \<mapsto> Dir], remote = \<lambda>_. Inl ConnectionError, net_log = [], clock = 0\<rparr> =
   (Inr (), \<lparr>fs = [[] \<mapsto> Dir, [''i.json''] \<mapsto> File (json_dumps (JList [JStr ''go'']))],
            remote = \<lambda>_. Inl ConnectionError, net_log = [], clock = 0\<rparr>) \<and>
   json_load_file ''/i.json''
     \<lparr>fs = [[] \<mapsto> Dir, [''i.json''] \<mapsto> File (json_dumps (JList [JStr ''go'']))],
      remote = \<lambda>_. Inl ConnectionError, net_log = [], clock = 0\<rparr> =
   (Inr (JList [JStr ''go'']),
      \<lparr>fs = [[] \<mapsto> Dir, [''i.json''] \<mapsto> File (json_dumps (JList [JStr ''go'']))],
       remote = \<lambda>_. Inl ConnectionError, net_log = [], clock = 0\<rparr>)"
proof -
  have wf: "json_wf (JList [JStr ''go''])" by simp
  have d: "json_dump_file ''/i.json'' (JList [JStr ''go''])
     \<lparr>fs = [[] \<mapsto> Dir], remote = \<lambda>_. Inl ConnectionError, net_log = [], clock = 0\<rparr> =
   (Inr (), \<lparr>fs = [[] \<mapsto> Dir, [''i.json''] \<mapsto> File (json_dumps (JList [JStr ''go'']))],
            remote = \<lambda>_. Inl ConnectionError, net_log = [], clock = 0\<rparr>)"
    by (simp add: json_dump_file_def fs_op_def write_file_def resolve_def path_step_def)
  show ?thesis using cache_roundtrip [OF wf d] wf d by simp
qed

text \<open>C2: \<open>sorted(xs, key=k, reverse=True)\<close> as CPython computes it (reverse, stable
  ascending sort, reverse) is the stable sort by descending key: the entries are ordered
  from the best ratio to the worst, and entries of equal ratio keep their order.\<close>

theorem py_sorted_desc_stable: "py_sorted_desc key xs = sort_key (\<lambda>x. - key x) xs"
proof (rule properties_for_sort_key [symmetric])
  let ?ys = "rev (sort_key key (rev xs))"
  show "mset (py_sorted_desc key xs) = mset xs"
    by (simp add: py_sorted_desc_def)
  show "sorted (map (\<lambda>x. - key x) (py_sorted_desc key xs))"
  proof -
    have "sorted (map key (sort_key key (rev xs)))" by simp
    then have "sorted_wrt (\<ge>) (map key ?ys)"
      by (simp add: rev_map [symmetric] sorted_wrt_rev)
    then show ?thesis
      by (simp add: py_sorted_desc_def sorted_wrt_map)
  qed
  fix k
  show "filter (\<lambda>x. - key k = - key x) (py_sorted_desc key xs) = filter (\<lambda>x. - key k = - key x) xs"
  proof -
    have "filter (\<lambda>x. key x = key k) (sort_key key (rev xs)) = filter (\<lambda>x. key x = key k) (rev xs)"
      by (rule sort_key_stable)
    then have "filter (\<lambda>x. key x = key k) ?ys = filter (\<lambda>x. key x = key k) xs"
      by (metis rev_filter rev_rev_ident)
    then show ?thesis
      by (simp add: py_sorted_desc_def eq_commute [of "key k"])
  qed
qed

text \<open>C3: \<open>get_doc_entries\<close> of a documentation whose entries file does not exist
  returns the empty list, raises nothing and changes nothing.\<close>

theorem get_doc_entries_unfetched:
  "\<not> os_path_exists (fs w) (path_join (entries_dir svc) (s @ ''.json'')) \<Longrightarrow>
   get_doc_entries svc s q w = (Inr (JList []), w)"
  by (simp add: get_doc_entries_def fs_query_def bindE_def ret_def Let_def)

theorem get_doc_entries_unfetched_witness:
  "\<not> os_path_exists [[] \<mapsto> Dir] (path_join (entries_dir (new_service ''/c'')) (''go'' @ ''.json'')) \<and>
   get_doc_entries (new_service ''/c'') ''go'' ''print''
     \<lparr>fs = [[] \<mapsto> Dir], remote = \<lambda>_. Inl ConnectionError, net_log = [], clock = 0\<rparr> =
   (Inr (JList []), \<lparr>fs = [[] \<mapsto> Dir], remote = \<lambda>_. Inl ConnectionError, net_log = [], clock = 0\<rparr>)"
proof -
  have n: "\<not> os_path_exists [[] \<mapsto> Dir] (path_join (entries_dir (new_service ''/c'')) (''go'' @ ''.json''))"
    by (simp add: os_path_exists_def resolve_def new_service_def path_join_def py_startswith_def
                  path_step_def)
  show ?thesis
    using get_doc_entries_unfetched
      [of "\<lparr>fs = [[] \<mapsto> Dir], remote = \<lambda>_. Inl ConnectionError, net_log = [], clock = 0\<rparr>"] n
    by simp
qed

text \<open>C4: When the request for the list of documentations fails, or its body is not
  JSON, \<open>index\<close> raises that error before touching the cache: only the request log
  changes.\<close>

theorem index_fetch_fail:
  "bindE (requests_get DEVDOCS_INDEX_ALL_URL) (\<lambda>r. lift (response_json r)) w = (Inl e, w') \<Longrightarrow>
   index svc w = (Inl e, w') \<and> fs w' = fs w"
  unfolding index_def bindE_assoc [symmetric]
  by (auto simp: bindE_def requests_get_def lift_def split: sum.splits prod.splits)

theorem index_fetch_fail_witness:
  "index (new_service ''/c'')
     \<lparr>fs = [[] \<mapsto> Dir], remote = \<lambda>_. Inl ConnectionError, net_log = [], clock = 0\<rparr> =
   (Inl ConnectionError,
      \<lparr>fs = [[] \<mapsto> Dir], remote = \<lambda>_. Inl ConnectionError, net_log = [DEVDOCS_INDEX_ALL_URL],
       clock = 0\<rparr>)"
proof -
  have "bindE (requests_get DEVDOCS_INDEX_ALL_URL) (\<lambda>r. lift (response_json r))
     \<lparr>fs = [[] \<mapsto> Dir], remote = \<lambda>_. Inl ConnectionError, net_log = [], clock = 0\<rparr> =
   (Inl ConnectionError,
      \<lparr>fs = [[] \<mapsto> Dir], remote = \<lambda>_. Inl ConnectionError, net_log = [DEVDOCS_INDEX_ALL_URL],
       clock = 0\<rparr>)"
    by (simp add: bindE_def requests_get_def)
  then show ?thesis using index_fetch_fail by blast
qed

text \<open>C5: \<open>get_docs(query)\<close> with a non-empty query returns, in index order, exactly the
  documentations whose lower-cased name contains the stripped, lower-cased query.\<close>

theorem get_docs_query:
  assumes "read_file (fs w) (index_file svc) = Inr s" "json_loads s = Inr (JList docs)"
      and "\<And>d. d \<in> set docs \<Longrightarrow> doc_name d \<noteq> None" "q \<noteq> []"
  shows "get_docs svc (Some q) w =
           (Inr (JList (filter (\<lambda>d. py_str_in (py_lower (py_strip q)) (py_lower (the (doc_name d))))
                          docs)), w)"
  using assms by (simp add: get_docs_def bindE_Inr [OF json_load_file_ok] query_truthy_def
                              filter_by_name_str ret_def)

theorem get_docs_query_witness:
  "get_docs (new_service ''/c'') (Some '' py'')
     \<lparr>fs = [[] \<mapsto> Dir, [''c''] \<mapsto> Dir, [''c'', ''index.json''] \<mapsto>
             File (json_dumps (JList [JDict [(''name'', JStr ''Go'')], JDict [(''name'', JStr ''Python'')]]))],
      remote = \<lambda>_. Inl ConnectionError, net_log = [], clock = 0\<rparr> =
   (Inr (JList [JDict [(''name'', JStr ''Python'')]]),
     \<lparr>fs = [[] \<mapsto> Dir, [''c''] \<mapsto> Dir, [''c'', ''index.json''] \<mapsto>
             File (json_dumps (JList [JDict [(''name'', JStr ''Go'')], JDict [(''name'', JStr ''Python'')]]))],
      remote = \<lambda>_. Inl ConnectionError, net_log = [], clock = 0\<rparr>)"
proof -
  let ?docs = "[JDict [(''name'', JStr ''Go'')], JDict [(''name'', JStr ''Python'')]]"
  let ?w = "\<lparr>fs = [[] \<mapsto> Dir, [''c''] \<mapsto> Dir, [''c'', ''index.json''] \<mapsto> File (json_dumps (JList ?docs))],
      remote = \<lambda>_. Inl ConnectionError, net_log = [], clock = 0::nat\<rparr>"
  have r: "read_file (fs ?w) (index_file (new_service ''/c'')) = Inr (json_dumps (JList ?docs))"
    by (simp add: read_file_def resolve_def new_service_def path_join_def py_startswith_def
                  path_step_def)
  have l: "json_loads (json_dumps (JList ?docs)) = Inr (JList ?docs)"
    by (rule json_roundtrip) simp
  have n: "\<And>d. d \<in> set ?docs \<Longrightarrow> doc_name d \<noteq> None"
    by (auto simp: doc_name_def)
  have f: "filter (\<lambda>d. py_str_in (py_lower (py_strip '' py'')) (py_lower (the (doc_name d)))) ?docs
           = [JDict [(''name'', JStr ''Python'')]]"
    by code_simp
  show ?thesis using get_docs_query [OF r l n] f by simp
qed

text \<open>C6: A successful \<open>index\<close> on the cache layout, when no selected slug contains a
  slash, persists exactly the selected documentations: \<open>get_docs()\<close> afterwards returns
  them in the order of the remote list, and the only nodes of the file tree that changed
  are the index file and the entries files \<open>entries/<slug>.json\<close> of the selected
  documentations.\<close>

theorem index_syncs:
  assumes lay: "cache_layout svc (fs w) qc"
    and ok: "index svc w = (Inr (), w')"
    and r: "remote w DEVDOCS_INDEX_ALL_URL = Inr rsp" "json_loads (resp_text rsp) = Inr docs"
    and sel: "select_docs (docs_to_fetch svc) docs = Inr sel"
    and plain: "\<forall>d\<in>set sel. \<forall>s. doc_slug d = Some s \<longrightarrow> CHR ''/'' \<notin> set s"
  shows "get_docs svc None w' = (Inr (JList sel), w') \<and>
         (\<forall>q. fs w' q \<noteq> fs w q \<longrightarrow>
            q = qc @ [''index.json''] \<or> (\<exists>d\<in>set sel. q = qc @ [''entries'', the (doc_slug d) @ ''.json'']))"
  using index_Inr_get_docs [OF assms] index_Inr_fs [OF assms] by blast

theorem index_syncs_witness:
  "cache_layout example_svc (fs (snd (ensure_cache_dirs (new_service ''/c'') example_world))) [''c''] \<and>
   get_docs example_svc None (snd (index example_svc (snd (ensure_cache_dirs (new_service ''/c'') example_world)))) =
     (Inr (JList [JDict [(''name'', JStr ''Go''), (''slug'', JStr ''go'')]]),
      snd (index example_svc (snd (ensure_cache_dirs (new_service ''/c'') example_world))))"
proof -
  let ?w = "snd (ensure_cache_dirs (new_service ''/c'') example_world)"
  let ?go = "JDict [(''name'', JStr ''Go''), (''slug'', JStr ''go'')]"
  have lay: "cache_layout example_svc (fs ?w) [''c'']" by code_simp
  have ok: "index example_svc ?w = (Inr (), snd (index example_svc ?w))"
  proof -
    have "fst (index example_svc ?w) = Inr ()" by code_simp
    then show ?thesis by (metis prod.collapse)
  qed
  have r: "remote ?w DEVDOCS_INDEX_ALL_URL = Inr \<lparr>status = 200, resp_text = json_dumps example_docs\<rparr>"
    by code_simp
  have l: "json_loads (resp_text \<lparr>status = 200, resp_text = json_dumps example_docs\<rparr>) = Inr example_docs"
    by (simp add: json_roundtrip example_docs_def del: json_dumps.simps)
  have sel: "select_docs (docs_to_fetch example_svc) example_docs = Inr [?go]" by code_simp
  have pl: "\<forall>d\<in>set [?go]. \<forall>s. doc_slug d = Some s \<longrightarrow> CHR ''/'' \<notin> set s"
    by (simp add: doc_slug_def)
  show ?thesis using index_syncs [OF lay ok r l sel pl] lay by blast
qed

text \<open>C7: A successful \<open>index\<close> requests \<open>docs.json\<close> first and then the entries of each
  selected documentation, in the order of the selection, at the URL built by
  \<open>str.replace\<close>, and sleeps 500 ms after each of them.\<close>

theorem index_requests:
  assumes ok: "index svc w = (Inr (), w')"
    and r: "remote w DEVDOCS_INDEX_ALL_URL = Inr rsp" "json_loads (resp_text rsp) = Inr docs"
    and sel: "select_docs (docs_to_fetch svc) docs = Inr sel"
  shows "net_log w' = net_log w @ DEVDOCS_INDEX_ALL_URL #
           map (\<lambda>d. py_replace ''%slug%'' (the (doc_slug d)) DEVDOCS_DOC_ENTRIES_URL) sel \<and>
         clock w' = clock w + 500 * length sel"
proof -
  obtain t where
    fa: "fetch_all svc sel (w\<lparr>net_log := net_log w @ [DEVDOCS_INDEX_ALL_URL], fs := t\<rparr>) = (Inr (), w')"
    using index_Inr [OF ok r sel] by blast
  then show ?thesis using fetch_all_log [OF fa] by simp
qed

theorem index_requests_witness:
  "net_log (snd (index example_svc (snd (ensure_cache_dirs (new_service ''/c'') example_world)))) =
     [DEVDOCS_INDEX_ALL_URL, ''https://devdocs.io/docs/go/index.json''] \<and>
   clock (snd (index example_svc (snd (ensure_cache_dirs (new_service ''/c'') example_world)))) = 500"
proof -
  let ?go = "JDict [(''name'', JStr ''Go''), (''slug'', JStr ''go'')]"
  let ?w = "snd (ensure_cache_dirs (new_service ''/c'') example_world)"
  have ok: "index example_svc ?w = (Inr (), snd (index example_svc ?w))"
  proof -
    have "fst (index example_svc ?w) = Inr ()" by code_simp
    then show ?thesis by (metis prod.collapse)
  qed
  have r: "remote ?w DEVDOCS_INDEX_ALL_URL = Inr \<lparr>status = 200, resp_text = json_dumps example_docs\<rparr>"
    by code_simp
  have l: "json_loads (resp_text \<lparr>status = 200, resp_text = json_dumps example_docs\<rparr>) = Inr example_docs"
    by (simp add: json_roundtrip example_docs_def del: json_dumps.simps)
  have sel: "select_docs (docs_to_fetch example_svc) example_docs = Inr [?go]" by code_simp
  have e: "net_log ?w = [] \<and> clock ?w = 0" by code_simp
  have u: "py_replace ''%slug%'' ''go'' DEVDOCS_DOC_ENTRIES_URL = ''https://devdocs.io/docs/go/index.json''"
    by code_simp
  show ?thesis using index_requests [OF ok r l sel] e u by (simp add: doc_slug_def)
qed

text \<open>C8: The constructor \<open>DevDocsService(logger, cache_dir)\<close>, started on a well-formed
  file tree, either raises or returns the service with the constructor's paths on the cache
  layout: the cache directory holds \<open>index.json\<close> and the directory \<open>entries\<close>.  The
  tree stays well-formed and nothing that existed is removed.\<close>

theorem DevDocsService_init_layout:
  assumes wf: "fs_wf (fs w)" and ok: "DevDocsService_init d w = (Inr svc, w')"
  shows "svc = new_service d \<and> (\<exists>qc. cache_layout svc (fs w') qc) \<and>
         os_path_exists (fs w') (index_file svc) \<and> fs_wf (fs w') \<and> fs_le (fs w) (fs w')"
proof -
  have e: "ensure_cache_dirs (new_service d) w = (Inr (), w')" and svc: "svc = new_service d"
    using ok by (auto simp: DevDocsService_init_def bindE_def ret_def split: prod.splits sum.splits)
  show ?thesis using ensure_cache_dirs_post [OF wf e] svc by simp
qed

theorem DevDocsService_init_layout_witness:
  "fs_wf (fs example_world) \<and>
   DevDocsService_init ''/c'' example_world =
     (Inr (new_service ''/c''), snd (DevDocsService_init ''/c'' example_world)) \<and>
   (\<exists>qc. cache_layout (new_service ''/c'') (fs (snd (DevDocsService_init ''/c'' example_world))) qc)"
proof -
  have wf: "fs_wf (fs example_world)" by (simp add: example_world_def fs_wf_def)
  have ok: "DevDocsService_init ''/c'' example_world =
     (Inr (new_service ''/c''), snd (DevDocsService_init ''/c'' example_world))"
  proof -
    have "fst (DevDocsService_init ''/c'' example_world) = Inr (new_service ''/c'')" by code_simp
    then show ?thesis by (metis prod.collapse)
  qed
  show ?thesis using DevDocsService_init_layout [OF wf ok] wf ok by blast
qed

text \<open>C9: \<open>ensure_cache_dirs\<close> is idempotent: once it has succeeded on a well-formed
  file tree, running it again succeeds and changes nothing.\<close>

theorem ensure_cache_dirs_idempotent:
  assumes wf: "fs_wf (fs w)" and ok: "ensure_cache_dirs (new_service d) w = (Inr (), w')"
  shows "ensure_cache_dirs (new_service d) w' = (Inr (), w')"
proof -
  obtain qc where "cache_layout (new_service d) (fs w') qc" "os_path_exists (fs w') (path_join d ''index.json'')"
    using ensure_cache_dirs_post [OF wf ok] by blast
  then show ?thesis by (rule ensure_cache_dirs_noop)
qed

theorem ensure_cache_dirs_idempotent_witness:
  "fs_wf (fs example_world) \<and>
   ensure_cache_dirs (new_service ''/c'') example_world =
     (Inr (), snd (ensure_cache_dirs (new_service ''/c'') example_world)) \<and>
   ensure_cache_dirs (new_service ''/c'') (snd (ensure_cache_dirs (new_service ''/c'') example_world)) =
     (Inr (), snd (ensure_cache_dirs (new_service ''/c'') example_world))"
proof -
  have wf: "fs_wf (fs example_world)" by (simp add: example_world_def fs_wf_def)
  have ok: "ensure_cache_dirs (new_service ''/c'') example_world =
     (Inr (), snd (ensure_cache_dirs (new_service ''/c'') example_world))"
  proof -
    have "fst (ensure_cache_dirs (new_service ''/c'') example_world) = Inr ()" by code_simp
    then show ?thesis by (metis prod.collapse)
  qed
  show ?thesis using ensure_cache_dirs_idempotent [OF wf ok] wf ok by blast
qed

text \<open>C18: When \<open>docs.json\<close> is fetched and filtered but the request for the entries of the
  first selected documentation fails, \<open>index\<close> raises that error after it has already
  replaced the index file with the new selection: the cache is left half-synced.\<close>

theorem index_entries_fail:
  assumes lay: "cache_layout svc (fs w) qc" and nd: "fs w (qc @ [''index.json'']) \<noteq> Some Dir"
    and r: "remote w DEVDOCS_INDEX_ALL_URL = Inr rsp" "json_loads (resp_text rsp) = Inr docs"
    and sel: "select_docs (docs_to_fetch svc) docs = Inr (d # ds)"
    and slug: "py_getitem d ''slug'' = Inr (JStr s)"
    and fail: "remote w (py_replace ''%slug%'' s DEVDOCS_DOC_ENTRIES_URL) = Inl e"
  shows "fst (index svc w) = Inl e \<and>
         fs (snd (index svc w)) = (fs w)(qc @ [''index.json''] \<mapsto> File (json_dumps (JList (d # ds))))"
  using assms
  by (simp add: index_def bindE_def requests_get_def lift_def response_json_def json_dump_file_def
                fs_op_def write_index_file fetch_doc_entries_def del: json_dumps.simps)

theorem index_entries_fail_witness:
  "fst (index example_svc ((snd (ensure_cache_dirs (new_service ''/c'') example_world))\<lparr>remote := go_down_remote\<rparr>)) =
     Inl ConnectionError \<and>
   fs (snd (ensure_cache_dirs (new_service ''/c'') example_world)) [''c'', ''index.json''] = Some (File ''[]'') \<and>
   fs (snd (index example_svc ((snd (ensure_cache_dirs (new_service ''/c'') example_world))\<lparr>remote := go_down_remote\<rparr>)))
      [''c'', ''index.json''] = Some (File (json_dumps (JList [JDict [(''name'', JStr ''Go''), (''slug'', JStr ''go'')]])))"
proof -
  let ?w = "(snd (ensure_cache_dirs (new_service ''/c'') example_world))\<lparr>remote := go_down_remote\<rparr>"
  let ?go = "JDict [(''name'', JStr ''Go''), (''slug'', JStr ''go'')]"
  have lay: "cache_layout example_svc (fs ?w) [''c'']" by code_simp
  have nd: "fs ?w ([''c''] @ [''index.json'']) \<noteq> Some Dir" by code_simp
  have old: "fs (snd (ensure_cache_dirs (new_service ''/c'') example_world)) [''c'', ''index.json''] = Some (File ''[]'')"
    by code_simp
  have r: "remote ?w DEVDOCS_INDEX_ALL_URL = Inr \<lparr>status = 200, resp_text = json_dumps example_docs\<rparr>"
    by code_simp
  have l: "json_loads (resp_text \<lparr>status = 200, resp_text = json_dumps example_docs\<rparr>) = Inr example_docs"
    by (simp add: json_roundtrip example_docs_def del: json_dumps.simps)
  have sel: "select_docs (docs_to_fetch example_svc) example_docs = Inr [?go]" by code_simp
  have sl: "py_getitem ?go ''slug'' = Inr (JStr ''go'')" by simp
  have f: "remote ?w (py_replace ''%slug%'' ''go'' DEVDOCS_DOC_ENTRIES_URL) = Inl ConnectionError" by code_simp
  show ?thesis using index_entries_fail [OF lay nd r l sel sl f] old by simp
qed

text \<open>C19: \<open>get_doc_entries(slug, query)\<close> with a non-empty query on a fetched
  documentation returns the entries whose lower-cased name contains the stripped,
  lower-cased query, ordered by descending \<open>SequenceMatcher(None, name, query).ratio()\<close>
  (with the query as given, neither stripped nor lower-cased).\<close>

theorem get_doc_entries_query:
  assumes ex: "os_path_exists (fs w) (path_join (entries_dir svc) (s @ ''.json''))"
    and rd: "read_file (fs w) (path_join (entries_dir svc) (s @ ''.json'')) = Inr c"
    and l: "json_loads c = Inr data" and es: "py_getitem data ''entries'' = Inr (JList xs)"
    and nm: "\<And>d. d \<in> set xs \<Longrightarrow> doc_name d \<noteq> None" and q: "q \<noteq> []"
  shows "get_doc_entries svc s q w =
           (Inr (JList (py_sorted_desc (entry_ratio q)
              (filter (\<lambda>d. py_str_in (py_lower (py_strip q)) (py_lower (the (doc_name d)))) xs))), w)"
  using assms
  by (simp add: get_doc_entries_def fs_query_def bindE_def ret_def lift_def json_load_file_ok
                filter_by_name_str Let_def)

theorem get_doc_entries_query_witness:
  "get_doc_entries (new_service ''/c'') ''php'' ''array'' php_world =
     (Inr (JList [JDict [(''name'', JStr ''array_map''), (''type'', JStr ''Array''), (''path'', JStr ''function.array-map'')],
                  JDict [(''name'', JStr ''array_filter''), (''type'', JStr ''Array''), (''path'', JStr ''function.array-filter'')]]),
      php_world)"
proof -
  let ?f = "JDict [(''name'', JStr ''array_filter''), (''type'', JStr ''Array''), (''path'', JStr ''function.array-filter'')]"
  let ?m = "JDict [(''name'', JStr ''array_map''), (''type'', JStr ''Array''), (''path'', JStr ''function.array-map'')]"
  let ?p = "path_join (entries_dir (new_service ''/c'')) (''php'' @ ''.json'')"
  have ex: "os_path_exists (fs php_world) ?p" by code_simp
  have rd: "read_file (fs php_world) ?p = Inr (json_dumps (JDict [(''entries'', JList [?f, ?m])]))" by code_simp
  have l: "json_loads (json_dumps (JDict [(''entries'', JList [?f, ?m])])) = Inr (JDict [(''entries'', JList [?f, ?m])])"
    by (rule json_roundtrip) simp
  have es: "py_getitem (JDict [(''entries'', JList [?f, ?m])]) ''entries'' = Inr (JList [?f, ?m])" by simp
  have nm: "\<And>d. d \<in> set [?f, ?m] \<Longrightarrow> doc_name d \<noteq> None" by (auto simp: doc_name_def)
  have v: "py_sorted_desc (entry_ratio ''array'')
      (filter (\<lambda>d. py_str_in (py_lower (py_strip ''array'')) (py_lower (the (doc_name d)))) [?f, ?m]) = [?m, ?f]"
    by code_simp
  show ?thesis using get_doc_entries_query [OF ex rd l es nm] v by simp
qed

text \<open>C20: When the preference \<open>docs\<close> is a string (a text field), \<open>x['slug'] in
  self.docs_to_fetch\<close> is a substring test: every documentation whose slug occurs inside
  the string is selected, so \<open>javascript\<close> also selects \<open>c\<close>.\<close>

theorem select_docs_substring:
  "\<forall>d\<in>set xs. doc_slug d \<noteq> None \<Longrightarrow>
   select_docs (SelStr p) (JList xs) = Inr (filter (\<lambda>d. sublist (the (doc_slug d)) p) xs)"
  using select_docs_str [of xs p] by (simp add: py_str_in_def)

theorem select_docs_substring_witness:
  "select_docs (SelStr ''javascript'') (JList (slug_docs [''c'', ''javascript'', ''python''])) =
     Inr (slug_docs [''c'', ''javascript''])"
proof -
  have h: "\<forall>d\<in>set (slug_docs [''c'', ''javascript'', ''python'']). doc_slug d \<noteq> None"
    by (simp add: slug_docs_def doc_slug_def)
  have "filter (\<lambda>d. sublist (the (doc_slug d)) ''javascript'') (slug_docs [''c'', ''javascript'', ''python''])
        = slug_docs [''c'', ''javascript'']" by code_simp
  then show ?thesis using select_docs_substring [OF h] by simp
qed

text \<open>C21: \<open>index\<close> refines the full sync of the design: after a successful run on the
  cache layout with slash-free slugs, the abstract cache (the index as read back, and the
  entries payload of each slug) is the abstract sync applied to the cache before: the
  index is the selection, each selected slug's entries are the server's answer, and every
  other slug's entries are unchanged.\<close>

theorem index_refines:
  assumes lay: "cache_layout svc (fs w) qc"
    and ok: "index svc w = (Inr (), w')"
    and r: "remote w DEVDOCS_INDEX_ALL_URL = Inr rsp" "json_loads (resp_text rsp) = Inr docs"
    and sel: "select_docs (docs_to_fetch svc) docs = Inr sel"
    and plain: "\<forall>d\<in>set sel. \<forall>s. doc_slug d = Some s \<longrightarrow> CHR ''/'' \<notin> set s"
  shows "cache_view svc w' = sync_spec sel (remote_entries w) (cache_view svc w)"
proof -
  note F = index_Inr_fs [OF assms]
  have F2: "fs_le (fs w) (fs w')"
    and F3: "\<And>q. fs w' q \<noteq> fs w q \<Longrightarrow>
            q = qc @ [''index.json''] \<or> (\<exists>d\<in>set sel. q = qc @ [''entries'', the (doc_slug d) @ ''.json''])"
    and F4: "\<And>d. d \<in> set sel \<Longrightarrow> doc_slug d \<noteq> None \<and> (\<exists>e. remote_entries w (the (doc_slug d)) = Inr e \<and>
            fs w' (qc @ [''entries'', the (doc_slug d) @ ''.json'']) = Some (File (json_dumps e)))"
    using F by blast+
  have lay': "cache_layout svc (fs w') qc" using cache_layout_mono [OF lay F2] .
  have ix: "fst (cache_view svc w') = Inr (JList sel)"
    using view_index [OF lay'] F select_docs_wf [OF json_loads_wf [OF r(2)] sel] by blast
  have en: "snd (cache_view svc w') s =
    (if s \<in> set (map (\<lambda>d. the (doc_slug d)) sel) then Some (remote_entries w s) else snd (cache_view svc w) s)"
    for s
  proof (cases "CHR ''/'' \<in> set s")
    case True
    have "s \<notin> set (map (\<lambda>d. the (doc_slug d)) sel)"
    proof
      assume "s \<in> set (map (\<lambda>d. the (doc_slug d)) sel)"
      then obtain d where d: "d \<in> set sel" "s = the (doc_slug d)" by auto
      then obtain s' where "doc_slug d = Some s'" using F4 by blast
      then show False using plain d True by auto
    qed
    then show ?thesis using True by (simp add: view_entry_slash)
  next
    case False
    show ?thesis
    proof (cases "s \<in> set (map (\<lambda>d. the (doc_slug d)) sel)")
      case True
      then obtain d where "d \<in> set sel" "s = the (doc_slug d)" by auto
      then obtain e where "remote_entries w s = Inr e" "fs w' (qc @ [''entries'', s @ ''.json'']) = Some (File (json_dumps e))"
        using F4 by blast
      then show ?thesis using view_entry_selected [OF lay' False _ _ remote_entries_wf] True by simp
    next
      case sel': False
      have "fs w' (qc @ [''entries'', s @ ''.json'']) = fs w (qc @ [''entries'', s @ ''.json''])"
      proof (rule ccontr)
        assume "fs w' (qc @ [''entries'', s @ ''.json'']) \<noteq> fs w (qc @ [''entries'', s @ ''.json''])"
        then obtain d where "d \<in> set sel" "qc @ [''entries'', s @ ''.json''] = qc @ [''entries'', the (doc_slug d) @ ''.json'']"
          using F3 by fastforce
        then show False using sel' by auto
      qed
      then show ?thesis using view_entry_frame [OF lay lay' False] sel' by simp
    qed
  qed
  show ?thesis using ix en by (simp add: sync_spec_def prod_eq_iff fun_eq_iff)
qed

theorem index_refines_witness:
  "cache_view example_svc (snd (index example_svc (snd (ensure_cache_dirs (new_service ''/c'') example_world)))) =
   sync_spec [JDict [(''name'', JStr ''Go''), (''slug'', JStr ''go'')]]
     (remote_entries (snd (ensure_cache_dirs (new_service ''/c'') example_world)))
     (cache_view example_svc (snd (ensure_cache_dirs (new_service ''/c'') example_world)))"
proof -
  let ?w = "snd (ensure_cache_dirs (new_service ''/c'') example_world)"
  let ?go = "JDict [(''name'', JStr ''Go''), (''slug'', JStr ''go'')]"
  have lay: "cache_layout example_svc (fs ?w) [''c'']" by code_simp
  have ok: "index example_svc ?w = (Inr (), snd (index example_svc ?w))"
  proof -
    have "fst (index example_svc ?w) = Inr ()" by code_simp
    then show ?thesis by (metis prod.collapse)
  qed
  have r: "remote ?w DEVDOCS_INDEX_ALL_URL = Inr \<lparr>status = 200, resp_text = json_dumps example_docs\<rparr>"
    by code_simp
  have l: "json_loads (resp_text \<lparr>status = 200, resp_text = json_dumps example_docs\<rparr>) = Inr example_docs"
    by (simp add: json_roundtrip example_docs_def del: json_dumps.simps)
  have sel: "select_docs (docs_to_fetch example_svc) example_docs = Inr [?go]" by code_simp
  have pl: "\<forall>d\<in>set [?go]. \<forall>s. doc_slug d = Some s \<longrightarrow> CHR ''/'' \<notin> set s"
    by (simp add: doc_slug_def)
  show ?thesis using index_refines [OF lay ok r l sel pl] .
qed

text \<open>C22: The ranking key of \<open>get_doc_entries\<close>, \<open>SequenceMatcher(None, name,
  query).ratio()\<close>, lies between 0 and 1, as the design requires of the similarity.\<close>

theorem entry_ratio_bounds: "0 \<le> entry_ratio q x \<and> entry_ratio q x \<le> 1"
  using seq_ratio_bounds by (simp add: entry_ratio_def split: sum.splits json.splits)

text \<open>C23: The matching-block loop behind the ranking key always finishes within its
  bound: for an entry with a string name the blocks exist and the key is \<open>2 M / T\<close>
  of their total size \<open>M\<close>; an entry without one ranks 0.\<close>

theorem entry_ratio_total:
  "(case py_getitem x ''name'' of
      Inr (JStr n) \<Rightarrow> \<exists>bs. matching_blocks n q = Some bs \<and>
                       entry_ratio q x = (if length n + length q = 0 then 1
                                          else 2 * of_nat (blocks_size bs) / of_nat (length n + length q))
    | _ \<Rightarrow> entry_ratio q x = 0)"
proof (cases "py_getitem x ''name''")
  case (Inr v)
  show ?thesis
  proof (cases v)
    case (JStr n)
    obtain bs where "matching_blocks n q = Some bs" using matching_blocks_Some by blast
    then show ?thesis using Inr JStr by (simp add: entry_ratio_def seq_ratio_def blocks_size_def Let_def)
  qed (use Inr in \<open>simp_all add: entry_ratio_def\<close>)
qed (simp add: entry_ratio_def)

text \<open>C24: The recursion bound of the JSON parser loses nothing: \<open>json.load\<close> of a
  cache file returns a value exactly when the file exists and some run of the parser,
  however deep, reads that value from its whole content.\<close>

theorem json_load_file_unbounded:
  "fst (json_load_file p w) = Inr v \<longleftrightarrow>
   (\<exists>c n r. read_file (fs w) p = Inr c \<and> parse_value n (skip_ws c) = Scan_ok (v, r) \<and> skip_ws r = [])"
proof -
  have "fst (json_load_file p w) = (case read_file (fs w) p of Inl e \<Rightarrow> Inl e | Inr c \<Rightarrow> json_loads c)"
    by (simp add: json_load_file_def)
  then show ?thesis
    by (auto simp: json_loads_unbounded simp del: dropWhile_eq_Nil_conv split: sum.splits)
qed

end
