(* ===== verification/Extension.thy ===== *)
theory Extension
  imports DevDocs
begin

text \<open>
  The launcher side of \<open>src/main.py\<close>: the class \<open>DevdocsExtension\<close> (its constructor,
  \<open>index_docs\<close> with its re-index \<open>Timer\<close>, \<open>get_icon\<close>, \<open>open_in_devdocs\<close> and the three
  renderers) and the four event listeners.  A state of the running extension is a
  \<open>system\<close>: the world of \<open>DevDocs\<close> and the extension object, whose pending timers are
  kept as their due times on the world's clock.  The launcher's actions and result items
  are the constructors of \<open>ulauncher.api\<close> with the arguments the code passes.  The events
  the launcher delivers, the timers that expire and the passing of time are the steps of
  \<open>handle_event\<close>; the states the extension can reach are the inductive set
  \<open>reachable\<close>.
\<close>

section \<open>Actions and result items\<close>

datatype action =
    RenderResultListAction "result_item list"
  | HideWindowAction
  | OpenUrlAction string
  | OpenAction string
  | SetUserQueryAction string
  | RunScriptAction string "string list"
  | ExtensionCustomAction json
and result_item =
    ExtensionResultItem (item_icon: string) (item_name: json) (item_description: json)
      (item_highlightable: bool) (item_on_enter: "action option") (item_on_alt_enter: "action option")

section \<open>The extension object and the system\<close>

text \<open>\<open>self.devdocs_svc\<close>, \<open>self.preferences\<close> (kept by the launcher's base class), the
  directory of \<open>main.py\<close> that \<open>get_icon\<close> looks in, the started \<open>Timer\<close> threads that
  have not fired yet (the clock when each was started and its interval in seconds), and the
  desktop notifications shown.\<close>

record extension =
  devdocs_svc :: devdocs_service
  preferences :: "string \<Rightarrow> string option"
  base_path :: string
  timers :: "(nat \<times> nat) list"
  notifications :: "string list"

record system =
  sys_world :: world
  sys_ext :: extension

type_synonym 'a ext_io = "(system, 'a) prog"

text \<open>A program of the service run on the world of the system.\<close>

definition in_world :: "'a io \<Rightarrow> 'a ext_io" where
  "in_world m s = (case m (sys_world s) of (r, w) \<Rightarrow> (r, s\<lparr>sys_world := w\<rparr>))"

definition update_ext :: "(extension \<Rightarrow> extension) \<Rightarrow> unit ext_io" where
  "update_ext f s = (Inr (), s\<lparr>sys_ext := f (sys_ext s)\<rparr>)"

text \<open>\<open>Timer(interval, f).start()\<close> with the interval in seconds.\<close>

definition start_timer :: "nat \<Rightarrow> unit ext_io" where
  "start_timer secs s =
     (Inr (), s\<lparr>sys_ext := (sys_ext s)\<lparr>timers := timers (sys_ext s) @ [(clock (sys_world s), secs)]\<rparr>\<rparr>)"

definition notify :: "string \<Rightarrow> unit ext_io" where
  "notify msg = update_ext (\<lambda>e. e\<lparr>notifications := notifications e @ [msg]\<rparr>)"

text \<open>\<open>__init__\<close>: the listeners are subscribed (their dispatch is \<open>handle_event\<close>) and
  the service is built on \<open>os.path.join(CACHE_DIR, 'devdocs')\<close>.\<close>

definition DevdocsExtension_init ::
  "string \<Rightarrow> string \<Rightarrow> (string \<Rightarrow> string option) \<Rightarrow> extension io" where
  "DevdocsExtension_init CACHE_DIR base prefs =
     bindE (DevDocsService_init (path_join CACHE_DIR ''devdocs'')) (\<lambda>svc.
     ret \<lparr>devdocs_svc = svc, preferences = prefs, base_path = base, timers = [], notifications = []\<rparr>)"

text \<open>\<open>index_docs\<close>: index, notify, and start the next run one cache lifetime later.  An
  exception of \<open>index\<close> propagates before the notification and the timer.\<close>

definition index_docs :: "unit ext_io" where
  "index_docs s =
     (
     bindE (in_world (index (devdocs_svc (sys_ext s)))) (\<lambda>_.
     bindE (notify ''Index Finished'') (\<lambda>_.
     start_timer get_index_cache_ttl))) s"

section \<open>Icons and URLs\<close>

text \<open>\<open>os.path.join(base_path, 'images', name)\<close>.\<close>

definition image_path :: "string \<Rightarrow> string \<Rightarrow> string" where
  "image_path base name = path_join (path_join base ''images'') name"

text \<open>\<open>get_icon(doc_slug)\<close>: the slug's image, else the image of the part before the first
  \<open>~\<close> (\<open>str.split\<close>, which wants a string), else the default icon.\<close>

definition get_icon :: "json \<Rightarrow> string ext_io" where
  "get_icon slug_arg s =
     (
     bindE (in_world (fs_query (\<lambda>t. os_path_exists t (image_path (base_path (sys_ext s)) (py_str slug_arg @ ''.png''))))) (\<lambda>ex.
     if ex then ret (''images/'' @ py_str slug_arg @ ''.png'')
     else
       bindE (lift (case slug_arg of JStr s \<Rightarrow> Inr (hd (py_split CHR ''~'' s)) | _ \<Rightarrow> Inl AttributeError)) (\<lambda>base_doc.
       bindE (in_world (fs_query (\<lambda>t. os_path_exists t (image_path (base_path (sys_ext s)) (base_doc @ ''.png''))))) (\<lambda>ex2.
       if ex2 then ret (''images/'' @ base_doc @ ''.png'') else ret ''images/icon.png'')))) s"

text \<open>\<open>open_in_devdocs(doc, entry=None)\<close>, with \<open>None\<close> the JSON \<open>null\<close>:
  \<open>doc + "/" + entry\<close> wants two strings.\<close>

definition open_in_devdocs :: "json \<Rightarrow> json \<Rightarrow> action ext_io" where
  "open_in_devdocs doc entry s =
     (
     bindE (lift (case preferences (sys_ext s) ''open_doc_in'' of
                    Some v \<Rightarrow> Inr v | None \<Rightarrow> Inl (KeyError ''open_doc_in''))) (\<lambda>open_result_in.
     bindE (lift (if py_truthy entry then
                    (case (doc, entry) of (JStr d, JStr p) \<Rightarrow> Inr (JStr (d @ ''/'' @ p)) | _ \<Rightarrow> Inl TypeError)
                  else Inr doc)) (\<lambda>doc_path.
     let doc_url = ''https://devdocs.io/'' @ py_str doc_path in
     if open_result_in = ''Hawkeye'' then
       ret (RunScriptAction (''hawkeye --uri='' @ [CHR 0x22] @ doc_url @ [CHR 0x22]) [])
     else if open_result_in = ''DevDocs Protocol'' then ret (OpenAction (''devdocs://'' @ py_str doc_path))
     else ret (OpenUrlAction doc_url)))) s"

section \<open>The result lists\<close>

text \<open>\<open>seq[:n]\<close> on a JSON value: lists and strings are cut, anything else raises.\<close>

definition py_slice_to :: "nat \<Rightarrow> json \<Rightarrow> json pyres" where
  "py_slice_to n v =
     (case v of JList xs \<Rightarrow> Inr (JList (take n xs)) | JStr s \<Rightarrow> Inr (JStr (take n s)) | _ \<Rightarrow> Inl TypeError)"

text \<open>The single item shown when there is nothing to list.\<close>

definition no_result_item :: "string \<Rightarrow> result_item" where
  "no_result_item msg =
     ExtensionResultItem ''images/icon.png'' (JStr msg) (JStr []) False (Some HideWindowAction) None"

text \<open>The loop of \<open>list_available_docs\<close>; the keyword arguments of
  \<open>ExtensionResultItem\<close> are evaluated in the order they are written.\<close>

fun doc_items :: "string \<Rightarrow> json list \<Rightarrow> result_item list ext_io" where
  "doc_items keyword [] = ret []"
| "doc_items keyword (doc # docs) =
     bindE (lift (py_getitem doc ''slug'')) (\<lambda>slug.
     bindE (get_icon slug) (\<lambda>icon.
     bindE (lift (py_getitem doc ''name'')) (\<lambda>name.
     bindE (lift (py_dict_get doc ''release'' (JStr []))) (\<lambda>desc.
     bindE (open_in_devdocs slug JNull) (\<lambda>alt.
     bindE (doc_items keyword docs) (\<lambda>items.
     ret (ExtensionResultItem icon name desc True
            (Some (SetUserQueryAction (keyword @ '' '' @ py_str slug @ '':''))) (Some alt) # items)))))))"

definition list_available_docs :: "string \<Rightarrow> string \<Rightarrow> action ext_io" where
  "list_available_docs keyword query s =
     (
     bindE (in_world (get_docs (devdocs_svc (sys_ext s)) (Some query))) (\<lambda>docs.
     if \<not> py_truthy docs then
       ret (RenderResultListAction [no_result_item ''No documentation found matching your criteria''])
     else
       bindE (lift (py_slice_to 10 docs)) (\<lambda>docs10.
       bindE (lift (py_iter docs10)) (\<lambda>ds.
       bindE (doc_items keyword ds) (\<lambda>items.
       ret (RenderResultListAction items)))))) s"

text \<open>The loop of \<open>show_entries\<close>.\<close>

fun entry_items :: "string \<Rightarrow> json list \<Rightarrow> result_item list ext_io" where
  "entry_items slug_arg [] = ret []"
| "entry_items slug_arg (entry # entries) =
     bindE (get_icon (JStr slug_arg)) (\<lambda>icon.
     bindE (lift (py_getitem entry ''name'')) (\<lambda>name.
     bindE (lift (py_getitem entry ''type'')) (\<lambda>ty.
     bindE (lift (py_getitem entry ''path'')) (\<lambda>p.
     bindE (open_in_devdocs (JStr slug_arg) p) (\<lambda>act.
     bindE (entry_items slug_arg entries) (\<lambda>items.
     ret (ExtensionResultItem icon name ty True (Some act) None # items)))))))"

definition show_entries :: "string \<Rightarrow> string \<Rightarrow> action ext_io" where
  "show_entries slug_arg query s =
     (
     bindE (in_world (get_doc_entries (devdocs_svc (sys_ext s)) slug_arg query)) (\<lambda>entries.
     if \<not> py_truthy entries then
       ret (RenderResultListAction [no_result_item ''No entries found matching your criteria''])
     else
       bindE (lift (py_slice_to 8 entries)) (\<lambda>entries8.
       bindE (lift (py_iter entries8)) (\<lambda>es.
       bindE (entry_items slug_arg es) (\<lambda>items.
       ret (RenderResultListAction items)))))) s"

definition show_options_menu :: "string \<Rightarrow> action ext_io" where
  "show_options_menu query s =
     (
     ret (RenderResultListAction
       [ExtensionResultItem ''images/icon.png'' (JStr ''Open DevDocs.io'')
          (JStr ''Opens DevDocs on your default browser'') False
          (Some (OpenUrlAction ''https://devdocs.io/'')) None,
        ExtensionResultItem ''images/icon.png'' (JStr ''Open cache folder'')
          (JStr ''Opens the folder where the documentation cache is stored'') False
          (Some (OpenAction (cache_dir (devdocs_svc (sys_ext s))))) None,
        ExtensionResultItem ''images/icon.png'' (JStr ''Index Documentation'')
          (JStr ''This process might take a while. You will receive a notification when finished.'') False
          (Some (ExtensionCustomAction (JList []))) None])) s"

section \<open>The listeners\<close>

text \<open>\<open>KeywordQueryEventListener.on_event\<close>: the options menu for a query starting with
  \<open>!\<close>; the entries of the keyword when it is a known slug; the entries of \<open>a\<close> for a
  query \<open>a:b\<close>; the list of documentations otherwise.\<close>

definition on_keyword_query :: "string option \<Rightarrow> string \<Rightarrow> action ext_io" where
  "on_keyword_query argument keyword s =
     (let query = (case argument of Some q \<Rightarrow> q | None \<Rightarrow> []) in
      if py_startswith query ''!'' then show_options_menu (py_strip_chars ''!'' query)
      else
        bindE (in_world (get_doc_by_slug (devdocs_svc (sys_ext s)) keyword)) (\<lambda>doc.
        if (case doc of Some d \<Rightarrow> py_truthy d | None \<Rightarrow> False) then show_entries keyword query
        else if query \<noteq> [] \<and> length (py_split CHR '':'' query) = 2 then
          show_entries (py_split CHR '':'' query ! 0) (py_split CHR '':'' query ! 1)
        else list_available_docs keyword query)) s"

text \<open>\<open>PreferencesEventListener\<close> and \<open>PreferencesUpdateEventListener\<close> (for the
  preference \<open>docs\<close>): store the selection and index.\<close>

definition on_preferences :: "selection \<Rightarrow> unit ext_io" where
  "on_preferences docs =
     bindE (update_ext (\<lambda>e. e\<lparr>devdocs_svc := set_docs_to_fetch (devdocs_svc e) docs\<rparr>)) (\<lambda>_.
     index_docs)"

definition on_preferences_update :: "string \<Rightarrow> selection \<Rightarrow> unit ext_io" where
  "on_preferences_update pref_id new_value =
     (if pref_id = ''docs'' then on_preferences new_value else ret ())"

definition on_item_enter :: "action ext_io" where
  "on_item_enter = bindE index_docs (\<lambda>_. ret HideWindowAction)"

section \<open>Events and reachable states\<close>

text \<open>What can happen to the running extension: the launcher delivers an event, the
  \<open>i\<close>-th pending timer fires (once its interval has passed on the clock, which counts
  milliseconds), or time passes.\<close>

definition timer_due :: "nat \<times> nat \<Rightarrow> nat" where
  "timer_due t = fst t + 1000 * snd t"

datatype event =
    KeywordQueryEvent "string option" string
  | PreferencesEvent selection
  | PreferencesUpdateEvent string selection
  | ItemEnterEvent
  | TimerExpires nat
  | ClockTick nat

definition timer_fires :: "nat \<Rightarrow> unit ext_io" where
  "timer_fires i s =
     (if i < length (timers (sys_ext s)) \<and> timer_due (timers (sys_ext s) ! i) \<le> clock (sys_world s) then
            bindE (update_ext (\<lambda>e. e\<lparr>timers := take i (timers e) @ drop (Suc i) (timers e)\<rparr>)) (\<lambda>_.
            index_docs) s
      else (Inr (), s))"

definition handle_event :: "event \<Rightarrow> action option ext_io" where
  "handle_event ev =
     (case ev of
        KeywordQueryEvent argument keyword \<Rightarrow> bindE (on_keyword_query argument keyword) (\<lambda>a. ret (Some a))
      | PreferencesEvent docs \<Rightarrow> bindE (on_preferences docs) (\<lambda>_. ret None)
      | PreferencesUpdateEvent pref_id v \<Rightarrow> bindE (on_preferences_update pref_id v) (\<lambda>_. ret None)
      | ItemEnterEvent \<Rightarrow> bindE on_item_enter (\<lambda>a. ret (Some a))
      | TimerExpires i \<Rightarrow> bindE (timer_fires i) (\<lambda>_. ret None)
      | ClockTick ms \<Rightarrow> (\<lambda>s. (Inr None, s\<lparr>sys_world := (sys_world s)\<lparr>clock := clock (sys_world s) + ms\<rparr>\<rparr>)))"

text \<open>The states of a running extension: built by the constructor on a well-formed file
  tree, then moved by events, in any order, whatever each returns; between two events the
  remote server may change its answers.\<close>

inductive reachable :: "system \<Rightarrow> bool" where
  init: "fs_wf (fs w) \<Longrightarrow> DevdocsExtension_init cache base prefs w = (Inr e, w') \<Longrightarrow>
         reachable \<lparr>sys_world = w', sys_ext = e\<rparr>"
| step: "reachable s \<Longrightarrow> handle_event ev s = (r, s') \<Longrightarrow> reachable s'"
| remote_changes: "reachable s \<Longrightarrow> reachable (s\<lparr>sys_world := (sys_world s)\<lparr>remote := f\<rparr>\<rparr>)"

text \<open>What every reachable state satisfies: the file tree is well-formed, the service's
  cache is usable (its layout and \<open>index.json\<close> are there), and every pending timer was
  started in the past with the cache lifetime as its interval.\<close>

definition ext_inv :: "system \<Rightarrow> bool" where
  "ext_inv s \<longleftrightarrow> fs_wf (fs (sys_world s)) \<and> cache_ok (devdocs_svc (sys_ext s)) (fs (sys_world s)) \<and>
     (\<forall>t\<in>set (timers (sys_ext s)). fst t \<le> clock (sys_world s) \<and> snd t = get_index_cache_ttl)"

section \<open>A sample running extension\<close>

text \<open>The extension built on the sample world of \<open>DevDocs\<close>, and the same extension after
  the launcher has delivered the preference \<open>docs = ['go']\<close>.\<close>

definition example_prefs :: "string \<Rightarrow> string option" where
  "example_prefs = [''open_doc_in'' \<mapsto> ''DevDocs Website'']"

definition example_system :: system where
  "example_system =
     \<lparr>sys_world = snd (DevdocsExtension_init ''/cache'' ''/ext'' example_prefs example_world),
      sys_ext = projr (fst (DevdocsExtension_init ''/cache'' ''/ext'' example_prefs example_world))\<rparr>"

definition example_running :: system where
  "example_running = snd (handle_event (PreferencesEvent (SelList [''go''])) example_system)"

section \<open>Facts about the listeners\<close>

text \<open>The queries leave the system as it is.\<close>

lemma in_world_read:
  assumes "\<And>I. preserves I m"
  shows "in_world m s = (fst (m (sys_world s)), s)"
proof -
  obtain r w' where m: "m (sys_world s) = (r, w')" by fastforce
  have "w' = sys_world s" using preserves_all_unchanged [OF assms m] .
  then show ?thesis using m by (simp add: in_world_def)
qed

lemmas world_reads = preserves_fs_query preserves_json_load_file get_docs_preserves
  get_doc_entries_preserves get_doc_by_slug_preserves

lemma get_icon_state: "get_icon x s = (r, s') \<Longrightarrow> s' = s"
  by (auto simp: get_icon_def bindE_def in_world_read [OF preserves_fs_query] ret_def lift_def
           split: prod.splits sum.splits if_splits json.splits)

lemma open_in_devdocs_state: "open_in_devdocs d x s = (r, s') \<Longrightarrow> s' = s"
  by (auto simp: open_in_devdocs_def bindE_def ret_def lift_def Let_def
           split: prod.splits sum.splits if_splits json.splits option.splits)

lemma doc_items_state: "doc_items k ds s = (r, s') \<Longrightarrow> s' = s"
proof (induction ds arbitrary: r s')
  case Nil
  then show ?case by (simp add: ret_def)
next
  case (Cons d ds)
  then show ?case
    by (auto simp: bindE_def lift_def ret_def split: prod.splits sum.splits
             dest: get_icon_state open_in_devdocs_state)
qed

lemma entry_items_state: "entry_items k es s = (r, s') \<Longrightarrow> s' = s"
proof (induction es arbitrary: r s')
  case Nil
  then show ?case by (simp add: ret_def)
next
  case (Cons e es)
  then show ?case
    by (auto simp: bindE_def lift_def ret_def split: prod.splits sum.splits
             dest: get_icon_state open_in_devdocs_state)
qed

lemma list_available_docs_state: "list_available_docs k q s = (r, s') \<Longrightarrow> s' = s"
  by (auto simp: list_available_docs_def bindE_def in_world_read [OF get_docs_preserves] ret_def lift_def
           split: prod.splits sum.splits if_splits dest: doc_items_state)

lemma show_entries_state: "show_entries k q s = (r, s') \<Longrightarrow> s' = s"
  by (auto simp: show_entries_def bindE_def in_world_read [OF get_doc_entries_preserves] ret_def lift_def
           split: prod.splits sum.splits if_splits dest: entry_items_state)

lemma show_options_menu_state: "show_options_menu q s = (r, s') \<Longrightarrow> s' = s"
  by (simp add: show_options_menu_def ret_def)

lemma on_keyword_query_state: "on_keyword_query a k s = (r, s') \<Longrightarrow> s' = s"
  by (auto simp: on_keyword_query_def bindE_def in_world_read [OF get_doc_by_slug_preserves] Let_def
           split: prod.splits sum.splits if_splits
           dest: show_options_menu_state show_entries_state list_available_docs_state)

text \<open>What \<open>index_docs\<close> does to the extension, and the invariant kept by every event.\<close>

lemma index_docs_cases:
  "index_docs s = (r, s') \<Longrightarrow>
   \<exists>w'. snd (index (devdocs_svc (sys_ext s)) (sys_world s)) = w' \<and> sys_world s' = w' \<and>
     devdocs_svc (sys_ext s') = devdocs_svc (sys_ext s) \<and>
     (timers (sys_ext s') = timers (sys_ext s) \<or>
      timers (sys_ext s') = timers (sys_ext s) @ [(clock w', get_index_cache_ttl)])"
  by (auto simp: index_docs_def bindE_def in_world_def notify_def update_ext_def start_timer_def
           split: prod.splits sum.splits)

lemma index_docs_Inr:
  "index_docs s = (Inr (), s') \<Longrightarrow>
   fst (index (devdocs_svc (sys_ext s)) (sys_world s)) = Inr () \<and>
   timers (sys_ext s') = timers (sys_ext s) @ [(clock (sys_world s'), get_index_cache_ttl)] \<and>
   notifications (sys_ext s') = notifications (sys_ext s) @ [''Index Finished'']"
  by (auto simp: index_docs_def bindE_def in_world_def notify_def update_ext_def start_timer_def
           split: prod.splits sum.splits)

lemma index_docs_Inl:
  "index_docs s = (Inl e, s') \<Longrightarrow> sys_ext s' = sys_ext s"
  by (auto simp: index_docs_def bindE_def in_world_def notify_def update_ext_def start_timer_def
           split: prod.splits sum.splits)

lemma index_keeps_wf_clock:
  assumes "index svc w = (r, w')" "fs_wf (fs w)"
  shows "fs_wf (fs w') \<and> clock w \<le> clock w'"
proof -
  have "fs_wf (fs w')"
    using preservesD [OF index_preserves [of "\<lambda>t c. fs_wf t"] assms(1)] assms(2)
    by (auto intro: fs_wf_write_file)
  moreover have "clock w \<le> clock w'"
    using preservesD [OF index_preserves [of "\<lambda>t c. clock w \<le> c"] assms(1)] by auto
  ultimately show ?thesis ..
qed

lemma index_docs_inv: "ext_inv s \<Longrightarrow> index_docs s = (r, s') \<Longrightarrow> ext_inv s'"
proof -
  assume inv: "ext_inv s" and ok: "index_docs s = (r, s')"
  obtain w' where w': "snd (index (devdocs_svc (sys_ext s)) (sys_world s)) = w'" "sys_world s' = w'"
    and t: "timers (sys_ext s') = timers (sys_ext s) \<or>
            timers (sys_ext s') = timers (sys_ext s) @ [(clock w', get_index_cache_ttl)]"
    using index_docs_cases [OF ok] by blast
  have i: "index (devdocs_svc (sys_ext s)) (sys_world s) = (fst (index (devdocs_svc (sys_ext s)) (sys_world s)), w')"
    using w'(1) by (metis prod.collapse)
  have "fs_wf (fs w') \<and> clock (sys_world s) \<le> clock w'"
    using index_keeps_wf_clock [OF i] inv by (simp add: ext_inv_def)
  moreover have "cache_ok (devdocs_svc (sys_ext s)) (fs w')"
    using index_keeps_cache_ok [OF i] inv by (simp add: ext_inv_def)
  moreover have "devdocs_svc (sys_ext s') = devdocs_svc (sys_ext s)"
    using index_docs_cases [OF ok] by blast
  ultimately show ?thesis using inv t w'(2) by (fastforce simp: ext_inv_def intro: order_trans)
qed

lemma update_svc_inv:
  "ext_inv (s\<lparr>sys_ext := (sys_ext s)\<lparr>devdocs_svc := set_docs_to_fetch (devdocs_svc (sys_ext s)) d\<rparr>\<rparr>) = ext_inv s"
  by (simp add: ext_inv_def)

lemma on_preferences_inv: "ext_inv s \<Longrightarrow> on_preferences d s = (r, s') \<Longrightarrow> ext_inv s'"
proof -
  assume "ext_inv s" "on_preferences d s = (r, s')"
  then show ?thesis
    using index_docs_inv [of "s\<lparr>sys_ext := (sys_ext s)\<lparr>devdocs_svc := set_docs_to_fetch (devdocs_svc (sys_ext s)) d\<rparr>\<rparr>"]
    by (simp add: on_preferences_def bindE_def update_ext_def update_svc_inv)
qed

text \<open>What a successful \<open>PreferencesEvent\<close> does: store the selection, run \<open>index\<close>
  with it, and start one more timer.\<close>

lemma on_preferences_index:
  assumes "on_preferences d s = (Inr (), s')"
  shows "devdocs_svc (sys_ext s') = set_docs_to_fetch (devdocs_svc (sys_ext s)) d \<and>
         index (set_docs_to_fetch (devdocs_svc (sys_ext s)) d) (sys_world s) = (Inr (), sys_world s') \<and>
         length (timers (sys_ext s')) = Suc (length (timers (sys_ext s)))"
proof -
  let ?s1 = "s\<lparr>sys_ext := (sys_ext s)\<lparr>devdocs_svc := set_docs_to_fetch (devdocs_svc (sys_ext s)) d\<rparr>\<rparr>"
  have i: "index_docs ?s1 = (Inr (), s')"
    using assms by (simp add: on_preferences_def bindE_def update_ext_def)
  obtain w' where w': "snd (index (devdocs_svc (sys_ext ?s1)) (sys_world ?s1)) = w'" "sys_world s' = w'"
    and sv: "devdocs_svc (sys_ext s') = devdocs_svc (sys_ext ?s1)"
    using index_docs_cases [OF i] by blast
  have ok: "fst (index (devdocs_svc (sys_ext ?s1)) (sys_world ?s1)) = Inr ()"
    and t: "timers (sys_ext s') = timers (sys_ext ?s1) @ [(clock (sys_world s'), get_index_cache_ttl)]"
    using index_docs_Inr [OF i] by blast+
  show ?thesis using sv ok w' t by (simp add: prod_eq_iff)
qed

lemma on_item_enter_inv: "ext_inv s \<Longrightarrow> on_item_enter s = (r, s') \<Longrightarrow> ext_inv s'"
  by (auto simp: on_item_enter_def bindE_def ret_def split: prod.splits sum.splits
           intro: index_docs_inv)

lemma timer_fires_inv: "ext_inv s \<Longrightarrow> timer_fires i s = (r, s') \<Longrightarrow> ext_inv s'"
proof -
  assume inv: "ext_inv s" and ok: "timer_fires i s = (r, s')"
  let ?s1 = "s\<lparr>sys_ext := (sys_ext s)\<lparr>timers := take i (timers (sys_ext s)) @ drop (Suc i) (timers (sys_ext s))\<rparr>\<rparr>"
  have "set (take i (timers (sys_ext s)) @ drop (Suc i) (timers (sys_ext s))) \<subseteq> set (timers (sys_ext s))"
    by (auto dest: in_set_takeD in_set_dropD)
  then have "ext_inv ?s1" using inv by (auto simp: ext_inv_def)
  then show ?thesis
    using ok inv by (auto simp: timer_fires_def bindE_def update_ext_def split: if_splits intro: index_docs_inv)
qed

lemma reachable_inv: "reachable s \<Longrightarrow> ext_inv s"
proof (induction rule: reachable.induct)
  case (init w cache base prefs e w')
  then obtain svc where "DevDocsService_init (path_join cache ''devdocs'') w = (Inr svc, w')"
    and e: "e = \<lparr>devdocs_svc = svc, preferences = prefs, base_path = base, timers = [], notifications = []\<rparr>"
    by (auto simp: DevdocsExtension_init_def bindE_def ret_def split: prod.splits sum.splits)
  then have ens: "ensure_cache_dirs (new_service (path_join cache ''devdocs'')) w = (Inr (), w')"
    and sv: "svc = new_service (path_join cache ''devdocs'')"
    by (auto simp: DevDocsService_init_def bindE_def ret_def split: prod.splits sum.splits)
  have "fs_wf (fs w')" using ensure_cache_dirs_post [OF init.hyps(1) ens] by blast
  moreover have "cache_ok svc (fs w')" using cache_ok_init [OF init.hyps(1) ens] sv by simp
  ultimately show ?case by (simp add: ext_inv_def e)
next
  case (step s ev r s')
  show ?case
  proof (cases ev)
    case (KeywordQueryEvent a k)
    then have "s' = s" using step.hyps(2)
      by (auto simp: handle_event_def bindE_def ret_def split: prod.splits sum.splits
               dest: on_keyword_query_state)
    then show ?thesis using step.IH by simp
  next
    case (PreferencesEvent d)
    then show ?thesis using step
      by (auto simp: handle_event_def bindE_def ret_def split: prod.splits sum.splits
               intro: on_preferences_inv)
  next
    case (PreferencesUpdateEvent x d)
    then show ?thesis using step
      by (auto simp: handle_event_def on_preferences_update_def bindE_def ret_def
               split: prod.splits sum.splits if_splits intro: on_preferences_inv)
  next
    case ItemEnterEvent
    then show ?thesis using step
      by (auto simp: handle_event_def bindE_def ret_def split: prod.splits sum.splits
               intro: on_item_enter_inv)
  next
    case (TimerExpires i)
    then show ?thesis using step
      by (auto simp: handle_event_def bindE_def ret_def split: prod.splits sum.splits
               intro: timer_fires_inv)
  next
    case (ClockTick ms)
    then show ?thesis using step by (fastforce simp: handle_event_def ext_inv_def intro: trans_le_add1)
  qed
next
  case (remote_changes s f)
  then show ?case by (simp add: ext_inv_def)
qed

text \<open>The lengths of the result lists.\<close>

lemma doc_items_length: "doc_items k ds s = (Inr items, s') \<Longrightarrow> length items = length ds"
proof (induction ds arbitrary: items s s')
  case (Cons d ds)
  then show ?case
    by (auto simp: bindE_def lift_def ret_def split: prod.splits sum.splits)
qed (simp add: ret_def)

lemma entry_items_length: "entry_items k es s = (Inr items, s') \<Longrightarrow> length items = length es"
proof (induction es arbitrary: items s s')
  case (Cons e es)
  then show ?case
    by (auto simp: bindE_def lift_def ret_def split: prod.splits sum.splits)
qed (simp add: ret_def)

lemma py_slice_iter_le: "py_slice_to n v = Inr v' \<Longrightarrow> py_iter v' = Inr xs \<Longrightarrow> length xs \<le> n"
  by (cases v) (auto simp: py_slice_to_def py_iter_def)

lemma list_available_docs_bounded:
  "list_available_docs k q s = (Inr (RenderResultListAction items), s') \<Longrightarrow> length items \<le> 10"
  by (auto simp: list_available_docs_def bindE_def lift_def ret_def split: prod.splits sum.splits if_splits
           dest!: doc_items_length py_slice_iter_le)

lemma show_entries_bounded:
  "show_entries k q s = (Inr (RenderResultListAction items), s') \<Longrightarrow> length items \<le> 8"
  by (auto simp: show_entries_def bindE_def lift_def ret_def split: prod.splits sum.splits if_splits
           dest!: entry_items_length py_slice_iter_le)

section \<open>Properties of the extension\<close>

lemma example_system_init:
  "DevdocsExtension_init ''/cache'' ''/ext'' example_prefs example_world =
     (Inr (sys_ext example_system), sys_world example_system)"
proof -
  have "\<not> isl (fst (DevdocsExtension_init ''/cache'' ''/ext'' example_prefs example_world))" by code_simp
  then show ?thesis by (simp add: example_system_def)
qed

lemma example_running_step:
  "handle_event (PreferencesEvent (SelList [''go''])) example_system =
     (fst (handle_event (PreferencesEvent (SelList [''go''])) example_system), example_running)"
  by (simp add: example_running_def)

lemma example_running_reachable: "reachable example_running"
proof -
  have "fs_wf (fs example_world)" by (simp add: example_world_def fs_wf_def)
  then have "reachable \<lparr>sys_world = sys_world example_system, sys_ext = sys_ext example_system\<rparr>"
    using example_system_init by (rule reachable.init)
  moreover have "\<lparr>sys_world = sys_world example_system, sys_ext = sys_ext example_system\<rparr> = example_system"
    by (cases example_system) simp
  ultimately have "reachable example_system" by simp
  then show ?thesis using example_running_step by (rule reachable.step)
qed

lemma example_running_timers: "timers (sys_ext example_running) = [(500, 86400)]"
  by code_simp

text \<open>C10: Answering a keyword query (\<open>KeywordQueryEventListener\<close>) changes nothing: no
  request, no file written, no timer started, whatever the result or exception.\<close>

theorem keyword_query_read_only:
  "handle_event (KeywordQueryEvent a k) s = (r, s') \<Longrightarrow> s' = s"
  by (auto simp: handle_event_def bindE_def ret_def split: prod.splits sum.splits
           dest: on_keyword_query_state)

theorem keyword_query_read_only_witness:
  "fst (handle_event (KeywordQueryEvent (Some ''go:print'') ''dd'') example_running) =
     Inr (Some (RenderResultListAction
       [ExtensionResultItem ''images/icon.png'' (JStr ''fmt.Println'') (JStr ''fmt'') True
          (Some (OpenUrlAction ''https://devdocs.io/go/fmt#Println'')) None])) \<and>
   snd (handle_event (KeywordQueryEvent (Some ''go:print'') ''dd'') example_running) = example_running"
proof -
  have "fst (handle_event (KeywordQueryEvent (Some ''go:print'') ''dd'') example_running) =
     Inr (Some (RenderResultListAction
       [ExtensionResultItem ''images/icon.png'' (JStr ''fmt.Println'') (JStr ''fmt'') True
          (Some (OpenUrlAction ''https://devdocs.io/go/fmt#Println'')) None]))" by code_simp
  moreover have "snd (handle_event (KeywordQueryEvent (Some ''go:print'') ''dd'') example_running) = example_running"
    using keyword_query_read_only [of "Some ''go:print''" "''dd''" example_running] by (metis prod.collapse)
  ultimately show ?thesis ..
qed

text \<open>C11: A keyword query renders at most ten items: at most ten documentations
  (\<open>docs[:10]\<close>), at most eight entries (\<open>entries[:8]\<close>), the three options, or the
  single item saying that nothing matched.\<close>

theorem keyword_query_results_bounded:
  "handle_event (KeywordQueryEvent a k) s = (Inr (Some (RenderResultListAction items)), s') \<Longrightarrow>
   length items \<le> 10"
  by (auto simp: handle_event_def on_keyword_query_def show_options_menu_def bindE_def ret_def Let_def
           split: prod.splits sum.splits if_splits
           dest!: list_available_docs_bounded show_entries_bounded)

theorem keyword_query_results_bounded_witness:
  "handle_event (KeywordQueryEvent (Some []) ''dd'') example_running =
     (Inr (Some (RenderResultListAction
        [ExtensionResultItem ''images/icon.png'' (JStr ''Go'') (JStr []) True
           (Some (SetUserQueryAction ''dd go:'')) (Some (OpenUrlAction ''https://devdocs.io/go''))])),
      example_running) \<and>
   length [ExtensionResultItem ''images/icon.png'' (JStr ''Go'') (JStr []) True
           (Some (SetUserQueryAction ''dd go:'')) (Some (OpenUrlAction ''https://devdocs.io/go''))] \<le> 10"
proof -
  let ?items = "[ExtensionResultItem ''images/icon.png'' (JStr ''Go'') (JStr []) True
           (Some (SetUserQueryAction ''dd go:'')) (Some (OpenUrlAction ''https://devdocs.io/go''))]"
  have f: "fst (handle_event (KeywordQueryEvent (Some []) ''dd'') example_running) =
     Inr (Some (RenderResultListAction ?items))" by code_simp
  have "snd (handle_event (KeywordQueryEvent (Some []) ''dd'') example_running) = example_running"
    using on_keyword_query_state [of "Some []" "''dd''" example_running]
    by (auto simp: handle_event_def bindE_def ret_def split: prod.splits sum.splits)
  then have e: "handle_event (KeywordQueryEvent (Some []) ''dd'') example_running =
     (Inr (Some (RenderResultListAction ?items)), example_running)"
    using f by (metis prod.collapse)
  show ?thesis using keyword_query_results_bounded [OF e] e by blast
qed

text \<open>C12: A query \<open>a:b\<close> under a keyword that is not a documentation slug shows the
  entries of \<open>a\<close> matching \<open>b\<close> (\<open>php:array_filter\<close>).\<close>

theorem keyword_query_doc_entry:
  assumes "\<not> py_startswith q ''!''"
    and "get_doc_by_slug (devdocs_svc (sys_ext s)) k (sys_world s) = (Inr None, sys_world s)"
    and "py_split CHR '':'' q = [a, b]"
  shows "on_keyword_query (Some q) k s = show_entries a b s"
proof -
  have "q \<noteq> []" using assms(3) by auto
  then show ?thesis using assms by (simp add: on_keyword_query_def bindE_def in_world_def)
qed

theorem keyword_query_doc_entry_witness:
  "\<not> py_startswith ''go:print'' ''!'' \<and>
   get_doc_by_slug (devdocs_svc (sys_ext example_running)) ''dd'' (sys_world example_running) =
     (Inr None, sys_world example_running) \<and>
   py_split CHR '':'' ''go:print'' = [''go'', ''print''] \<and>
   on_keyword_query (Some ''go:print'') ''dd'' example_running = show_entries ''go'' ''print'' example_running"
proof -
  have n: "\<not> py_startswith ''go:print'' ''!''" by (simp add: py_startswith_def)
  have f: "fst (get_doc_by_slug (devdocs_svc (sys_ext example_running)) ''dd'' (sys_world example_running)) = Inr None"
    by code_simp
  have "snd (get_doc_by_slug (devdocs_svc (sys_ext example_running)) ''dd'' (sys_world example_running)) =
        sys_world example_running"
    using preserves_all_unchanged [OF get_doc_by_slug_preserves] by (metis prod.collapse)
  then have g: "get_doc_by_slug (devdocs_svc (sys_ext example_running)) ''dd'' (sys_world example_running) =
     (Inr None, sys_world example_running)" using f by (metis prod.collapse)
  have sp: "py_split CHR '':'' ''go:print'' = [''go'', ''print'']" by code_simp
  show ?thesis using keyword_query_doc_entry [OF n g sp] n g sp by blast
qed

text \<open>C13: \<open>open_in_devdocs(slug, path)\<close> opens \<open>https://devdocs.io/<slug>/<path>\<close>: with
  the preference \<open>Hawkeye\<close> through \<open>hawkeye --uri\<close>, with \<open>DevDocs Protocol\<close> as
  \<open>devdocs://<slug>/<path>\<close>, and in the browser otherwise.\<close>

theorem open_in_devdocs_url:
  assumes "preferences (sys_ext s) ''open_doc_in'' = Some v" and "p \<noteq> []"
  shows "open_in_devdocs (JStr d) (JStr p) s =
    (Inr (if v = ''Hawkeye'' then
            RunScriptAction (''hawkeye --uri='' @ [CHR 0x22] @ ''https://devdocs.io/'' @ d @ ''/'' @ p @ [CHR 0x22]) []
          else if v = ''DevDocs Protocol'' then OpenAction (''devdocs://'' @ d @ ''/'' @ p)
          else OpenUrlAction (''https://devdocs.io/'' @ d @ ''/'' @ p)), s)"
  using assms by (simp add: open_in_devdocs_def bindE_def lift_def ret_def py_str_def)

theorem open_in_devdocs_url_witness:
  "preferences (sys_ext example_running) ''open_doc_in'' = Some ''DevDocs Website'' \<and>
   open_in_devdocs (JStr ''go'') (JStr ''fmt#Println'') example_running =
     (Inr (OpenUrlAction ''https://devdocs.io/go/fmt#Println''), example_running)"
proof -
  have p: "preferences (sys_ext example_running) ''open_doc_in'' = Some ''DevDocs Website''" by code_simp
  show ?thesis using open_in_devdocs_url [OF p, of "''fmt#Println''" "''go''"] p by simp
qed

text \<open>C14: In every state the running extension can reach, from a well-formed file tree
  and through any sequence of events, timer expiries, clock ticks and changes of the
  remote server, the cache stays usable: the file tree is well-formed, the service's cache
  directory resolves to a directory holding \<open>entries/\<close>, and \<open>index.json\<close> exists, so
  no query ever finds its index missing.\<close>

theorem reachable_cache_usable:
  "reachable s \<Longrightarrow>
   fs_wf (fs (sys_world s)) \<and> (\<exists>qc. cache_layout (devdocs_svc (sys_ext s)) (fs (sys_world s)) qc) \<and>
   os_path_exists (fs (sys_world s)) (index_file (devdocs_svc (sys_ext s)))"
  using reachable_inv by (simp add: ext_inv_def cache_ok_iff)

theorem reachable_cache_usable_witness:
  "reachable example_running \<and> fs_wf (fs (sys_world example_running)) \<and>
   (\<exists>qc. cache_layout (devdocs_svc (sys_ext example_running)) (fs (sys_world example_running)) qc) \<and>
   os_path_exists (fs (sys_world example_running)) (index_file (devdocs_svc (sys_ext example_running)))"
  using example_running_reachable reachable_cache_usable [OF example_running_reachable] by blast

text \<open>C15: In every reachable state each pending re-index timer is due within one cache
  lifetime (24 hours) of the current time.\<close>

theorem reachable_timers_due:
  "reachable s \<Longrightarrow> t \<in> set (timers (sys_ext s)) \<Longrightarrow>
   timer_due t \<le> clock (sys_world s) + 1000 * get_index_cache_ttl"
  using reachable_inv by (fastforce simp: ext_inv_def timer_due_def)

theorem reachable_timers_due_witness:
  "reachable example_running \<and> (500, 86400) \<in> set (timers (sys_ext example_running)) \<and>
   timer_due (500, 86400) \<le> clock (sys_world example_running) + 1000 * get_index_cache_ttl"
proof -
  have m: "(500, 86400) \<in> set (timers (sys_ext example_running))"
    by (simp add: example_running_timers)
  show ?thesis using reachable_timers_due [OF example_running_reachable m] example_running_reachable m
    by blast
qed

text \<open>C16: Every successful update of the preference \<open>docs\<close> starts one more re-index
  timer and cancels none: the pending timers of the earlier runs stay.\<close>

theorem preferences_update_adds_timer:
  "handle_event (PreferencesUpdateEvent ''docs'' v) s = (Inr None, s') \<Longrightarrow>
   timers (sys_ext s') = timers (sys_ext s) @ [(clock (sys_world s'), get_index_cache_ttl)]"
  by (auto simp: handle_event_def on_preferences_update_def on_preferences_def bindE_def ret_def
                 update_ext_def split: prod.splits sum.splits dest!: index_docs_Inr)

theorem preferences_update_adds_timer_witness:
  "handle_event (PreferencesUpdateEvent ''docs'' (SelList [''go''])) example_running =
     (Inr None, snd (handle_event (PreferencesUpdateEvent ''docs'' (SelList [''go''])) example_running)) \<and>
   length (timers (sys_ext (snd (handle_event (PreferencesUpdateEvent ''docs'' (SelList [''go''])) example_running)))) = 2"
proof -
  have f: "fst (handle_event (PreferencesUpdateEvent ''docs'' (SelList [''go''])) example_running) = Inr None"
    by code_simp
  then have e: "handle_event (PreferencesUpdateEvent ''docs'' (SelList [''go''])) example_running =
     (Inr None, snd (handle_event (PreferencesUpdateEvent ''docs'' (SelList [''go''])) example_running))"
    by (metis prod.collapse)
  show ?thesis using preferences_update_adds_timer [OF e] e example_running_timers by simp
qed

text \<open>C17: When a re-index timer fires and the sync raises, the extension is left with one
  timer fewer and no new notification: no further run is scheduled, so that timer's daily
  refresh has ended.\<close>

theorem timer_failure_ends_refresh:
  "handle_event (TimerExpires i) s = (Inl e, s') \<Longrightarrow>
   length (timers (sys_ext s')) + 1 = length (timers (sys_ext s)) \<and>
   notifications (sys_ext s') = notifications (sys_ext s)"
  by (auto simp: handle_event_def timer_fires_def bindE_def ret_def update_ext_def
           split: prod.splits sum.splits if_splits dest!: index_docs_Inl)

theorem timer_failure_ends_refresh_witness:
  "handle_event (TimerExpires 0)
     (example_running\<lparr>sys_world := (sys_world example_running)\<lparr>clock := 86400500, remote := \<lambda>_. Inl ConnectionError\<rparr>\<rparr>) =
   (Inl ConnectionError, snd (handle_event (TimerExpires 0)
     (example_running\<lparr>sys_world := (sys_world example_running)\<lparr>clock := 86400500, remote := \<lambda>_. Inl ConnectionError\<rparr>\<rparr>))) \<and>
   timers (sys_ext (snd (handle_event (TimerExpires 0)
     (example_running\<lparr>sys_world := (sys_world example_running)\<lparr>clock := 86400500, remote := \<lambda>_. Inl ConnectionError\<rparr>\<rparr>)))) = []"
proof -
  let ?s = "example_running\<lparr>sys_world := (sys_world example_running)\<lparr>clock := 86400500, remote := \<lambda>_. Inl ConnectionError\<rparr>\<rparr>"
  have f: "fst (handle_event (TimerExpires 0) ?s) = Inl ConnectionError" by code_simp
  then have e: "handle_event (TimerExpires 0) ?s = (Inl ConnectionError, snd (handle_event (TimerExpires 0) ?s))"
    by (metis prod.collapse)
  show ?thesis using timer_failure_ends_refresh [OF e] e example_running_timers by simp
qed

end
