(* ===== verification/Spec2Isabelle.thy ===== *)
theory Spec2Isabelle
  imports Extension
begin

text \<open>
  \<^bold>\<open>ulauncher-devdocs\<close>: a launcher extension that keeps an offline copy of the
  documentation index of devdocs.io and searches it.  This development models the two
  source files and proves what makes them correct, and where they are not.

  \<^bold>\<open>The parts and how they interact.\<close>  \<open>src/main.py\<close> is the extension: the launcher
  delivers events (keyword queries, preferences at start and on update, the "Index
  Documentation" item) to listeners, which call the \<open>DevdocsExtension\<close> object; its
  \<open>index_docs\<close> runs the sync and starts a \<open>threading.Timer\<close> to run again after a day.
  \<open>src/devdocs/devdocs_service.py\<close> is the service: \<open>index\<close> fetches \<open>docs.json\<close>, keeps
  the selected documentations, writes \<open>index.json\<close>, then fetches and writes each
  documentation's entries; the queries read those files back and filter and rank them.

  \<^bold>\<open>Theories.\<close>
  \<^item> \<open>Prelude\<close>: Python exceptions (\<open>py_error\<close>), the state-and-exception programs
    \<open>('s, 'a) prog\<close> with \<open>ret\<close>, \<open>raise\<close>, \<open>lift\<close> and \<open>bindE\<close> in which every method
    is written, the predicate \<open>preserves\<close> with its rules (\<open>preserves_intro\<close>), and the
    string methods the code calls.
  \<^item> \<open>Json\<close>: the values \<open>json\<close>, subscription and iteration, \<open>str()\<close>/\<open>repr()\<close>, and the
    codec of the \<open>json\<close> module (\<open>json_dumps\<close>, \<open>json_loads\<close> with its parser
    \<open>parse_value\<close>); the round trip \<open>json_roundtrip\<close>, well-formedness of parsed values, and
    that the parser's bound \<open>2 * length s + 1\<close> is never exhausted (\<open>parse_value_fuel\<close>)
    and loses nothing (\<open>json_loads_unbounded\<close>).
  \<^item> \<open>Filesystem\<close>: a file tree with \<open>os.path.join\<close>, \<open>exists\<close>, \<open>isdir\<close>, \<open>os.mkdir\<close>,
    \<open>os.makedirs\<close>, \<open>open\<close> for reading and writing; well-formedness \<open>fs_wf\<close> is kept by
    every operation, and the tree only grows (\<open>fs_le\<close>).
  \<^item> \<open>Matcher\<close>: \<open>difflib.SequenceMatcher.ratio\<close> (\<open>find_longest_match\<close>, the work-stack
    loop \<open>mb_loop\<close> on fuel, \<open>seq_ratio\<close>); the fuel \<open>2 * length a + 2\<close> always suffices
    because each turn lowers the stack weight \<open>mb_weight\<close>, and the ratio lies in [0, 1].
  \<^item> \<open>DevDocs\<close>: the \<open>world\<close> (file tree, server answers, request log, clock) and
    \<open>DevDocsService\<close>: \<open>DevDocsService_init\<close>/\<open>ensure_cache_dirs\<close>, \<open>set_docs_to_fetch\<close>,
    \<open>index\<close> (\<open>select_docs\<close>, \<open>fetch_all\<close>, \<open>fetch_doc_entries\<close>), \<open>get_docs\<close>,
    \<open>get_doc_entries\<close> (\<open>filter_by_name\<close>, \<open>entry_ratio\<close>, \<open>py_sorted_desc\<close>) and
    \<open>get_doc_by_slug\<close>, one definition per method with every exception path; the abstract
    cache \<open>cache_view\<close> and the abstract sync \<open>sync_spec\<close> of the design.
  \<^item> \<open>Extension\<close>: \<open>DevdocsExtension\<close> and the listeners of \<open>main.py\<close> over a \<open>system\<close>
    (world plus extension object with its pending timers and notifications), the event
    step \<open>handle_event\<close> and the inductive set \<open>reachable\<close> of running states.

  \<^bold>\<open>What is proved.\<close>  The cache round trip; the sync: what \<open>index\<close> writes, what it
  requests and in which order, that it refines the design's full sync (\<open>index_refines\<close>),
  and how it fails (before any write when \<open>docs.json\<close> fails, after \<open>index.json\<close> is already
  replaced when an entries request fails); the queries' results, including the ranking
  (stable descending sort, ratio in [0, 1], always computed); the constructor's layout and
  its idempotence; for the extension, that queries change nothing and render at most ten
  items, the URLs it opens, the invariant of every reachable state (a well-formed tree
  on which the cache layout and \<open>index.json\<close> persist, timers due within a day), and that timers accumulate and a failed run ends its refresh
  chain.  The root theorem \<open>preferences_event_syncs\<close> composes the two files: a
  \<open>PreferencesEvent\<close> delivered to the extension leaves a cache whose \<open>get_docs()\<close> is
  exactly the new selection.

  \<^bold>\<open>Bounds and fuel.\<close>  The JSON parser recurses on the bound \<open>2 * length s + 1\<close>: each
  nesting level costs two units and consumes a character, so the bound is never reached
  (\<open>parse_fuel\<close>), and by monotonicity in the bound the result is that of an unbounded
  parser.  \<open>get_matching_blocks\<close> runs on \<open>2 * length a + 2\<close> turns: a range of width
  \<open>w\<close> weighs \<open>2 w + 1\<close>, and splitting it around a block of size \<open>k > 0\<close> leaves at
  most \<open>2 (w - k) + 2\<close>, so each turn lowers the weight by one.  Time is a clock in
  milliseconds; \<open>time.sleep(0.5)\<close> adds 500 and the timer's 86400 s is due after
  86 400 000.

  \<^bold>\<open>Not modelled.\<close>  Logging (no effect on state), the display of \<open>Notify\<close>
  notifications (kept as a list of messages), the launcher's rendering of actions (kept as
  data), preference storage by ulauncher (the value is the event's argument), the
  \<open>if __name__ == '__main__'\<close> run loop, floats and JSON numbers with a fraction or
  exponent, \<open>\u\<close> escapes above U+00FF, symbolic links and permissions, and the
  interleaving of a timer thread with queries below the granularity of one event: each
  event or timer run is one atomic step of \<open>handle_event\<close>.
\<close>

text \<open>C25: Handling a \<open>PreferencesEvent\<close> with a selection, when the sync succeeds on the
  cache layout, stores the selection, leaves a cache whose \<open>get_docs()\<close> returns exactly
  the selected documentations in the server's order, and starts one more re-index timer.\<close>

theorem preferences_event_syncs:
  assumes ev: "handle_event (PreferencesEvent d) s = (Inr None, s')"
    and lay: "cache_layout (devdocs_svc (sys_ext s)) (fs (sys_world s)) qc"
    and r: "remote (sys_world s) DEVDOCS_INDEX_ALL_URL = Inr rsp" "json_loads (resp_text rsp) = Inr docs"
    and sel: "select_docs d docs = Inr sel"
    and plain: "\<forall>x\<in>set sel. \<forall>slug. doc_slug x = Some slug \<longrightarrow> CHR ''/'' \<notin> set slug"
  shows "docs_to_fetch (devdocs_svc (sys_ext s')) = d \<and>
         get_docs (devdocs_svc (sys_ext s')) None (sys_world s') = (Inr (JList sel), sys_world s') \<and>
         length (timers (sys_ext s')) = Suc (length (timers (sys_ext s)))"
proof -
  have "on_preferences d s = (Inr (), s')"
    using ev by (auto simp: handle_event_def bindE_def ret_def split: prod.splits sum.splits)
  note P = on_preferences_index [OF this]
  let ?svc = "set_docs_to_fetch (devdocs_svc (sys_ext s)) d"
  have lay1: "cache_layout ?svc (fs (sys_world s)) qc" using lay by simp
  have sel1: "select_docs (docs_to_fetch ?svc) docs = Inr sel" using sel by (simp add: set_docs_to_fetch_def)
  have ok: "index ?svc (sys_world s) = (Inr (), sys_world s')" using P by blast
  have "get_docs ?svc None (sys_world s') = (Inr (JList sel), sys_world s')"
    using index_Inr_get_docs [OF lay1 ok r sel1 plain] .
  then show ?thesis using P by (simp add: set_docs_to_fetch_def)
qed

theorem preferences_event_syncs_witness:
  "docs_to_fetch (devdocs_svc (sys_ext example_running)) = SelList [''go''] \<and>
   get_docs (devdocs_svc (sys_ext example_running)) None (sys_world example_running) =
     (Inr (JList [JDict [(''name'', JStr ''Go''), (''slug'', JStr ''go'')]]), sys_world example_running)"
proof -
  let ?go = "JDict [(''name'', JStr ''Go''), (''slug'', JStr ''go'')]"
  have f: "fst (handle_event (PreferencesEvent (SelList [''go''])) example_system) = Inr None" by code_simp
  have ev: "handle_event (PreferencesEvent (SelList [''go''])) example_system = (Inr None, example_running)"
    using f example_running_step by simp
  have lay: "cache_layout (devdocs_svc (sys_ext example_system)) (fs (sys_world example_system)) [''cache'', ''devdocs'']"
    by code_simp
  have r: "remote (sys_world example_system) DEVDOCS_INDEX_ALL_URL =
      Inr \<lparr>status = 200, resp_text = json_dumps example_docs\<rparr>" by code_simp
  have l: "json_loads (resp_text \<lparr>status = 200, resp_text = json_dumps example_docs\<rparr>) = Inr example_docs"
    by (simp add: json_roundtrip example_docs_def del: json_dumps.simps)
  have sel: "select_docs (SelList [''go'']) example_docs = Inr [?go]" by code_simp
  have pl: "\<forall>x\<in>set [?go]. \<forall>slug. doc_slug x = Some slug \<longrightarrow> CHR ''/'' \<notin> set slug"
    by (simp add: doc_slug_def)
  show ?thesis using preferences_event_syncs [OF ev lay r l sel pl] by blast
qed

end
